theory Spec2Isabelle
  imports Main "HOL-Library.Sublist"
begin

section \<open>The documentation validator of \<^verbatim>\<open>skills/scripts/validate_docs.py\<close>\<close>

text \<open>
  The script reads markdown documents and reports errors and warnings. The model below
  follows the class \<^verbatim>\<open>DocValidator\<close> method by method. A Python \<^verbatim>\<open>str\<close> is
  modelled as a \<^typ>\<open>string\<close> whose characters are code points below 256 (the Latin-1
  range); every regular expression of the script is written out as the matcher that
  Python's backtracking engine computes for it on such text.
\<close>

subsection \<open>Characters and strings\<close>

definition is_digit :: "char \<Rightarrow> bool" where
  \<comment> \<open>\<^verbatim>\<open>\d\<close>: below code point 256 only the ASCII digits are decimal digits\<close>
  "is_digit c = (c \<in> set ''0123456789'')"

definition is_space :: "char \<Rightarrow> bool" where
  \<comment> \<open>\<^verbatim>\<open>\s\<close> on \<^verbatim>\<open>str\<close>: the characters with \<^verbatim>\<open>str.isspace()\<close> below 256\<close>
  "is_space c = ((of_char c :: nat) \<in> {9, 10, 11, 12, 13, 28, 29, 30, 31, 32, 133, 160})"

definition newline :: char where
  "newline = CHR 0x0A"

definition backtick :: char where
  "backtick = CHR 0x60"

definition backslash :: char where
  "backslash = CHR 0x5C"

definition lower_char :: "char \<Rightarrow> char" where
  \<comment> \<open>\<^verbatim>\<open>str.lower()\<close> on one code point below 256\<close>
  "lower_char c =
     (let n = (of_char c :: nat)
      in if (65 \<le> n \<and> n \<le> 90) \<or> (192 \<le> n \<and> n \<le> 222 \<and> n \<noteq> 215)
         then char_of (n + 32) else c)"

definition lower :: "string \<Rightarrow> string" where
  "lower s = map lower_char s"

fun str_in :: "string \<Rightarrow> string \<Rightarrow> bool" where
  \<comment> \<open>\<^verbatim>\<open>pat in s\<close>\<close>
  "str_in pat [] = (pat = [])"
| "str_in pat (c # cs) = (prefix pat (c # cs) \<or> str_in pat cs)"

definition startswith_any :: "string list \<Rightarrow> string \<Rightarrow> bool" where
  \<comment> \<open>\<^verbatim>\<open>s.startswith((p1, p2, ...))\<close>\<close>
  "startswith_any ps s = list_ex (\<lambda>p. prefix p s) ps"

definition lstrip_slash :: "string \<Rightarrow> string" where
  \<comment> \<open>\<^verbatim>\<open>s.lstrip('/')\<close>\<close>
  "lstrip_slash s = dropWhile (\<lambda>c. c = CHR ''/'') s"

definition replace_backslash :: "string \<Rightarrow> string" where
  \<comment> \<open>\<^verbatim>\<open>s.replace('\\', '/')\<close>\<close>
  "replace_backslash s = map (\<lambda>c. if c = backslash then CHR ''/'' else c) s"

fun split_on :: "char \<Rightarrow> string \<Rightarrow> string list" where
  \<comment> \<open>\<^verbatim>\<open>s.split(d)\<close> for a one-character separator\<close>
  "split_on d [] = [[]]"
| "split_on d (c # cs) =
     (if c = d then [] # split_on d cs
      else (case split_on d cs of
              [] \<Rightarrow> [[c]]
            | w # ws \<Rightarrow> (c # w) # ws))"

fun join_with :: "char \<Rightarrow> string list \<Rightarrow> string" where
  \<comment> \<open>\<^verbatim>\<open>d.join(parts)\<close>\<close>
  "join_with d [] = []"
| "join_with d [w] = w"
| "join_with d (w # v # ws) = w @ d # join_with d (v # ws)"

definition digit_char :: "nat \<Rightarrow> char" where
  "digit_char n = ''0123456789'' ! (n mod 10)"

function str_nat :: "nat \<Rightarrow> string" where
  \<comment> \<open>\<^verbatim>\<open>str(n)\<close> for a non-negative integer\<close>
  "str_nat n = (if n < 10 then [digit_char n] else str_nat (n div 10) @ [digit_char n])"
  by pat_completeness auto
termination
  by (relation "measure id") auto

declare str_nat.simps [simp del]

definition str_int :: "int \<Rightarrow> string" where
  \<comment> \<open>\<^verbatim>\<open>str(i)\<close>\<close>
  "str_int i = (if i < 0 then CHR ''-'' # str_nat (nat (- i)) else str_nat (nat i))"

subsection \<open>Paths and the file system\<close>

text \<open>
  A \<^verbatim>\<open>pathlib.Path\<close> of the script is always absolute (the project root is resolved,
  documents are found below it or joined to it); it is modelled by the list of its
  components below the POSIX root. \<^verbatim>\<open>pathlib\<close> drops empty components and single
  dots when it parses a string, and keeps \<^verbatim>\<open>..\<close> until \<^verbatim>\<open>resolve()\<close>.
\<close>

type_synonym path = "string list"

definition parse_parts :: "string \<Rightarrow> string list" where
  "parse_parts s = filter (\<lambda>w. w \<noteq> [] \<and> w \<noteq> ''.'') (split_on CHR ''/'' s)"

definition path_join :: "path \<Rightarrow> string \<Rightarrow> path" where
  \<comment> \<open>\<^verbatim>\<open>p / s\<close>: an absolute right operand replaces the left one\<close>
  "path_join p s = (if prefix ''/'' s then parse_parts s else p @ parse_parts s)"

definition path_parent :: "path \<Rightarrow> path" where
  \<comment> \<open>\<^verbatim>\<open>p.parent\<close>; the parent of the root is the root\<close>
  "path_parent p = butlast p"

definition path_name :: "path \<Rightarrow> string" where
  \<comment> \<open>\<^verbatim>\<open>p.name\<close>; empty for the root\<close>
  "path_name p = (if p = [] then [] else last p)"

definition path_str :: "path \<Rightarrow> string" where
  \<comment> \<open>\<^verbatim>\<open>str(p)\<close> of an absolute path\<close>
  "path_str p = CHR ''/'' # join_with CHR ''/'' p"

fun resolve_from :: "path \<Rightarrow> string list \<Rightarrow> path" where
  "resolve_from acc [] = acc"
| "resolve_from acc (c # cs) =
     (if c = ''..'' then resolve_from (butlast acc) cs else resolve_from (acc @ [c]) cs)"

definition resolve :: "path \<Rightarrow> path" where
  \<comment> \<open>\<^verbatim>\<open>p.resolve()\<close> on a file system without symbolic links: \<^verbatim>\<open>..\<close> is collapsed,
      and stays at the root there\<close>
  "resolve p = resolve_from [] p"

datatype error = ValueError | IsADirectoryError | UnicodeDecodeError | OSError

definition relative_to :: "path \<Rightarrow> path \<Rightarrow> error + string" where
  \<comment> \<open>\<^verbatim>\<open>str(p.relative_to(root))\<close>: a comparison of components, \<^verbatim>\<open>ValueError\<close> when
      \<^verbatim>\<open>root\<close> is not a prefix of \<^verbatim>\<open>p\<close>\<close>
  "relative_to p root =
     (if prefix root p
      then Inr (let r = drop (length root) p in if r = [] then ''.'' else join_with CHR ''/'' r)
      else Inl ValueError)"

definition resolve_link :: "path \<Rightarrow> string \<Rightarrow> error + path" where
  \<comment> \<open>\<^verbatim>\<open>(parent / link_url).resolve()\<close>: the paths of the script hold no null character,
      a link may, and then \<^verbatim>\<open>os.path.realpath\<close> raises \<^verbatim>\<open>ValueError\<close>\<close>
  "resolve_link parent link_url =
     (if CHR 0x00 \<in> set link_url then Inl ValueError
      else Inr (resolve (path_join parent link_url)))"

datatype node = File string | Dir | Unreadable | Refused

text \<open>
  The file system answers, for the components of a path, what the operating system finds
  there: a file with its decoded text, a directory, a file whose bytes are no UTF-8 text
  (\<open>Unreadable\<close>), or nothing. \<open>Refused\<close> stands for a path on which \<^verbatim>\<open>stat()\<close> fails
  with an error that \<^verbatim>\<open>exists()\<close> does not take for absence (a name that is too long, a
  directory that may not be searched); \<^verbatim>\<open>exists()\<close> raises it as \<^verbatim>\<open>OSError\<close>.
\<close>

type_synonym filesystem = "path \<Rightarrow> node option"

definition stat_refused :: "filesystem \<Rightarrow> path \<Rightarrow> bool" where
  "stat_refused fs p = (fs p = Some Refused)"

definition path_exists :: "filesystem \<Rightarrow> path \<Rightarrow> bool" where
  \<comment> \<open>the answer of \<^verbatim>\<open>p.exists()\<close> when \<^verbatim>\<open>stat()\<close> is not refused\<close>
  "path_exists fs p = (fs p \<noteq> None)"

definition exists_probe :: "filesystem \<Rightarrow> path \<Rightarrow> error + bool" where
  \<comment> \<open>\<^verbatim>\<open>p.exists()\<close>\<close>
  "exists_probe fs p = (if stat_refused fs p then Inl OSError else Inr (path_exists fs p))"

definition read_text :: "filesystem \<Rightarrow> path \<Rightarrow> error + string" where
  \<comment> \<open>\<^verbatim>\<open>p.read_text(encoding='utf-8')\<close> of an existing path\<close>
  "read_text fs p =
     (case fs p of
        Some (File t) \<Rightarrow> Inr t
      | Some Unreadable \<Rightarrow> Inl UnicodeDecodeError
      | _ \<Rightarrow> Inl IsADirectoryError)"

subsection \<open>Scanning with a pattern\<close>

text \<open>
  A matcher tries its pattern at the start of a text and returns the captured groups
  with the text after the match. \<^verbatim>\<open>re.findall\<close> tries each position from the left and
  goes on after a match; a match that consumes nothing moves one character on.
\<close>

function findall :: "(string \<Rightarrow> ('g \<times> string) option) \<Rightarrow> string \<Rightarrow> 'g list" where
  "findall m [] = []"
| "findall m (c # cs) =
     (case m (c # cs) of
        None \<Rightarrow> findall m cs
      | Some (g, rest) \<Rightarrow>
          if length rest < length (c # cs) then g # findall m rest else g # findall m cs)"
  by pat_completeness auto
termination
  by (relation "measure (\<lambda>(m, s). length s)") auto

fun re_search :: "(string \<Rightarrow> 'g option) \<Rightarrow> string \<Rightarrow> 'g option" where
  \<comment> \<open>\<^verbatim>\<open>re.search\<close>: the match at the leftmost position that has one\<close>
  "re_search m [] = m []"
| "re_search m (c # cs) = (case m (c # cs) of Some g \<Rightarrow> Some g | None \<Rightarrow> re_search m cs)"

fun search_lines :: "(string \<Rightarrow> bool) \<Rightarrow> bool \<Rightarrow> string \<Rightarrow> bool" where
  \<comment> \<open>\<^verbatim>\<open>re.search\<close> of a pattern that starts with \<^verbatim>\<open>^\<close> under \<^verbatim>\<open>re.MULTILINE\<close>: the
      flag tells whether the position is the start of the text or follows a newline\<close>
  "search_lines m bol [] = (bol \<and> m [])"
| "search_lines m bol (c # cs) = ((bol \<and> m (c # cs)) \<or> search_lines m (c = newline) cs)"

subsection \<open>The validator\<close>

record validator =
  project_root :: path
  fix_mode :: bool
  errors :: "string list"
  warnings :: "string list"
  fixes_applied :: "string list"

definition init_validator :: "path \<Rightarrow> bool \<Rightarrow> validator" where
  \<comment> \<open>\<^verbatim>\<open>DocValidator.__init__\<close>\<close>
  "init_validator root fix =
     \<lparr>project_root = root, fix_mode = fix, errors = [], warnings = [], fixes_applied = []\<rparr>"

subsubsection \<open>Broken links\<close>

definition match_link :: "string \<Rightarrow> ((string \<times> string) \<times> string) option" where
  \<comment> \<open>\<^verbatim>\<open>\[([^\]]+)\]\(([^)]+)\)\<close>: each negated class runs up to the first character it
      excludes, which has to be the one the pattern asks for next\<close>
  "match_link s =
     (case s of
        [] \<Rightarrow> None
      | c # r \<Rightarrow>
          if c \<noteq> CHR ''['' then None
          else let link_text = takeWhile (\<lambda>x. x \<noteq> CHR '']'') r;
                   r1 = dropWhile (\<lambda>x. x \<noteq> CHR '']'') r
               in if link_text = [] then None
                  else (case r1 of
                          b # p # r2 \<Rightarrow>
                            if p \<noteq> CHR ''('' then None
                            else let link_url = takeWhile (\<lambda>x. x \<noteq> CHR '')'') r2;
                                     r3 = dropWhile (\<lambda>x. x \<noteq> CHR '')'') r2
                                 in if link_url = [] then None
                                    else (case r3 of
                                            [] \<Rightarrow> None
                                          | q # r4 \<Rightarrow> Some ((link_text, link_url), r4))
                        | _ \<Rightarrow> None))"

definition broken_link_msg :: "string \<Rightarrow> string \<Rightarrow> string \<Rightarrow> string" where
  "broken_link_msg link_text link_url rel =
     ''Broken link: ['' @ link_text @ '']('' @ link_url @ '') -> '' @ rel @ '' not found''"

fun check_links_loop ::
  "filesystem \<Rightarrow> path \<Rightarrow> (string \<times> string) list \<Rightarrow> validator \<Rightarrow> error + validator" where
  "check_links_loop fs doc_path [] v = Inr v"
| "check_links_loop fs doc_path ((link_text, link_url) # links) v =
     (if startswith_any [''http://'', ''https://'', ''mailto:'', ''#''] link_url
      then check_links_loop fs doc_path links v
      else (case (if prefix ''/'' link_url
                  then Inr (path_join (project_root v) (lstrip_slash link_url))
                  else resolve_link (path_parent doc_path) link_url) of
              Inl e \<Rightarrow> Inl e
            | Inr target_path \<Rightarrow>
                (case exists_probe fs target_path of
                   Inl e \<Rightarrow> Inl e
                 | Inr found \<Rightarrow>
                     if \<not> found
                     then (case relative_to target_path (project_root v) of
                             Inl e \<Rightarrow> Inl e
                           | Inr rel \<Rightarrow>
                               check_links_loop fs doc_path links
                                 (v\<lparr>errors := errors v
                                      @ [broken_link_msg link_text link_url rel]\<rparr>))
                     else check_links_loop fs doc_path links v)))"

definition check_broken_links ::
  "filesystem \<Rightarrow> validator \<Rightarrow> path \<Rightarrow> string \<Rightarrow> error + validator" where
  "check_broken_links fs v doc_path content =
     check_links_loop fs doc_path (findall match_link content) v"

subsubsection \<open>References to code files\<close>

definition split_last_dot :: "string \<Rightarrow> (string \<times> string) option" where
  \<comment> \<open>the text before and after the last dot, if there is a dot\<close>
  "split_last_dot y =
     (if CHR ''.'' \<in> set y
      then Some (rev (tl (dropWhile (\<lambda>x. x \<noteq> CHR ''.'') (rev y))),
                 rev (takeWhile (\<lambda>x. x \<noteq> CHR ''.'') (rev y)))
      else None)"

definition has_extension :: "string list \<Rightarrow> string \<Rightarrow> bool" where
  \<comment> \<open>\<^verbatim>\<open>[^`]+\.(e1|e2|...)\<close> matches the whole of \<^verbatim>\<open>y\<close>: the extensions hold no dot, so
      the dot is the last one, and something stands before it\<close>
  "has_extension exts y =
     (case split_last_dot y of
        None \<Rightarrow> False
      | Some (stem, ext) \<Rightarrow> stem \<noteq> [] \<and> ext \<in> set exts)"

definition match_ref_lined :: "string \<Rightarrow> (string \<times> string) option" where
  \<comment> \<open>\<^verbatim>\<open>`([^`]+\.(ts|tsx|js|jsx|py|sql|md)):(\d+)`\<close>, returning group 1: the span runs to
      the next backtick and ends with a colon and the longest run of digits\<close>
  "match_ref_lined s =
     (case s of
        [] \<Rightarrow> None
      | c # r \<Rightarrow>
          if c \<noteq> backtick then None
          else let span = takeWhile (\<lambda>x. x \<noteq> backtick) r;
                   r1 = dropWhile (\<lambda>x. x \<noteq> backtick) r;
                   digits = takeWhile is_digit (rev span);
                   front = dropWhile is_digit (rev span)
               in (case r1 of
                     [] \<Rightarrow> None
                   | q # r2 \<Rightarrow>
                       (case front of
                          [] \<Rightarrow> None
                        | colon # y \<Rightarrow>
                            if digits \<noteq> [] \<and> colon = CHR '':'' \<and>
                               has_extension [''ts'', ''tsx'', ''js'', ''jsx'', ''py'', ''sql'', ''md'']
                                 (rev y)
                            then Some (rev y, r2) else None)))"

definition match_ref_rooted :: "string \<Rightarrow> string \<Rightarrow> (string \<times> string) option" where
  \<comment> \<open>\<^verbatim>\<open>`(src/[^`]+\.(ts|tsx|js|jsx))`\<close> and the same under \<^verbatim>\<open>app/\<close>, returning group 1\<close>
  "match_ref_rooted root s =
     (case s of
        [] \<Rightarrow> None
      | c # r \<Rightarrow>
          if c \<noteq> backtick then None
          else let span = takeWhile (\<lambda>x. x \<noteq> backtick) r;
                   r1 = dropWhile (\<lambda>x. x \<noteq> backtick) r
               in (case r1 of
                     [] \<Rightarrow> None
                   | q # r2 \<Rightarrow>
                       if prefix root span \<and>
                          has_extension [''ts'', ''tsx'', ''js'', ''jsx''] (drop (length root) span)
                       then Some (span, r2) else None))"

definition file_patterns :: "(string \<Rightarrow> (string \<times> string) option) list" where
  "file_patterns = [match_ref_lined, match_ref_rooted ''src/'', match_ref_rooted ''app/'']"

definition is_placeholder :: "string \<Rightarrow> bool" where
  "is_placeholder file_ref =
     list_ex (\<lambda>placeholder. str_in placeholder (lower file_ref))
       [''example'', ''your-'', ''xxx'', ''...'']"

fun check_refs_loop :: "filesystem \<Rightarrow> string list \<Rightarrow> validator \<Rightarrow> error + validator" where
  "check_refs_loop fs [] v = Inr v"
| "check_refs_loop fs (m # matches) v =
     (let file_ref = replace_backslash m
      in if is_placeholder file_ref then check_refs_loop fs matches v
         else (case exists_probe fs (path_join (project_root v) file_ref) of
                 Inl e \<Rightarrow> Inl e
               | Inr found \<Rightarrow>
                   if \<not> found
                   then check_refs_loop fs matches
                          (v\<lparr>warnings := warnings v
                               @ [''Referenced file may not exist: '' @ file_ref]\<rparr>)
                   else check_refs_loop fs matches v))"

fun check_patterns_loop ::
  "filesystem \<Rightarrow> string \<Rightarrow> (string \<Rightarrow> (string \<times> string) option) list \<Rightarrow> validator
     \<Rightarrow> error + validator"
  where
  "check_patterns_loop fs content [] v = Inr v"
| "check_patterns_loop fs content (pattern # patterns) v =
     (case check_refs_loop fs (findall pattern content) v of
        Inl e \<Rightarrow> Inl e
      | Inr v' \<Rightarrow> check_patterns_loop fs content patterns v')"

definition check_code_file_references ::
  "filesystem \<Rightarrow> validator \<Rightarrow> path \<Rightarrow> string \<Rightarrow> error + validator" where
  "check_code_file_references fs v doc_path content =
     check_patterns_loop fs content file_patterns v"

subsubsection \<open>The last-updated timestamp\<close>

record date =
  year :: nat
  month :: nat
  day :: nat

record datetime =
  dt_date :: date
  dt_micros :: nat  \<comment> \<open>microseconds since midnight\<close>

definition day_micros :: nat where
  "day_micros = 86400000000"

definition is_leap :: "nat \<Rightarrow> bool" where
  "is_leap y = (y mod 4 = 0 \<and> (y mod 100 \<noteq> 0 \<or> y mod 400 = 0))"

definition days_in_month :: "nat \<Rightarrow> nat \<Rightarrow> nat" where
  "days_in_month y m =
     (if m = 2 then (if is_leap y then 29 else 28)
      else if m \<in> {4, 6, 9, 11} then 30 else 31)"

definition days_before_year :: "nat \<Rightarrow> nat" where
  "days_before_year y = (y - 1) * 365 + (y - 1) div 4 - (y - 1) div 100 + (y - 1) div 400"

definition days_before_month :: "nat \<Rightarrow> nat \<Rightarrow> nat" where
  "days_before_month y m = sum_list (map (days_in_month y) [1..<m])"

definition toordinal :: "date \<Rightarrow> nat" where
  \<comment> \<open>the proleptic Gregorian ordinal of \<^verbatim>\<open>datetime\<close>: 1 January of year 1 is day 1\<close>
  "toordinal d = days_before_year (year d) + days_before_month (year d) (month d) + day d"

definition digit_val :: "char \<Rightarrow> nat" where
  "digit_val c = of_char c - 48"

definition digits_val :: "string \<Rightarrow> nat" where
  "digits_val s = foldl (\<lambda>n c. 10 * n + digit_val c) 0 s"

definition iso_date_shape :: "string \<Rightarrow> bool" where
  \<comment> \<open>the whole text is \<^verbatim>\<open>\d{4}-\d{2}-\d{2}\<close>\<close>
  "iso_date_shape d =
     (length d = 10 \<and> list_all is_digit (take 4 d) \<and> d ! 4 = CHR ''-'' \<and>
      list_all is_digit (take 2 (drop 5 d)) \<and> d ! 7 = CHR ''-'' \<and>
      list_all is_digit (drop 8 d))"

definition iso_date_prefix :: "string \<Rightarrow> string option" where
  \<comment> \<open>\<^verbatim>\<open>(\d{4}-\d{2}-\d{2})\<close> at the start of the text: the group is its first ten
      characters\<close>
  "iso_date_prefix s = (if iso_date_shape (take 10 s) then Some (take 10 s) else None)"

definition strptime :: "string \<Rightarrow> error + date" where
  \<comment> \<open>\<^verbatim>\<open>datetime.strptime(s, '%Y-%m-%d')\<close> on a text of the shape the patterns capture:
      a year, month or day out of range is a \<^verbatim>\<open>ValueError\<close>\<close>
  "strptime s =
     (if \<not> iso_date_shape s then Inl ValueError
      else let y = digits_val (take 4 s);
               m = digits_val (take 2 (drop 5 s));
               d = digits_val (take 2 (drop 8 s))
           in if 1 \<le> y \<and> 1 \<le> m \<and> m \<le> 12 \<and> 1 \<le> d \<and> d \<le> days_in_month y m
              then Inr \<lparr>year = y, month = m, day = d\<rparr>
              else Inl ValueError)"

definition pad2 :: "nat \<Rightarrow> string" where
  "pad2 n = [digit_char (n div 10), digit_char n]"

definition pad4 :: "nat \<Rightarrow> string" where
  "pad4 n = [digit_char (n div 1000), digit_char (n div 100), digit_char (n div 10), digit_char n]"

definition strftime :: "date \<Rightarrow> string" where
  \<comment> \<open>\<^verbatim>\<open>d.strftime('%Y-%m-%d')\<close> as the C library of Linux gives it: month and day with
      two digits, the year without padding (three digits for the year 999)\<close>
  "strftime d = str_nat (year d) @ ''-'' @ pad2 (month d) @ ''-'' @ pad2 (day d)"

definition days_between :: "datetime \<Rightarrow> date \<Rightarrow> int" where
  \<comment> \<open>\<^verbatim>\<open>(now - last_updated).days\<close>: \<^verbatim>\<open>last_updated\<close> is a midnight, and the days of a
      \<^verbatim>\<open>timedelta\<close> round towards minus infinity\<close>
  "days_between now d =
     (int (toordinal (dt_date now)) * int day_micros + int (dt_micros now)
        - int (toordinal d) * int day_micros) div int day_micros"

definition match_updated :: "string \<Rightarrow> string \<Rightarrow> string option" where
  \<comment> \<open>\<^verbatim>\<open>label\s*(\d{4}-\d{2}-\d{2})\<close> at the start of the text, for a literal label\<close>
  "match_updated label s =
     (if prefix label s
      then iso_date_prefix (dropWhile is_space (drop (length label) s))
      else None)"

definition updated_labels :: "string list" where
  "updated_labels = [''**Last Updated**:'', ''Last Updated:'', ''Updated:'']"

fun first_match :: "string list \<Rightarrow> string \<Rightarrow> string option" where
  \<comment> \<open>the loop over the patterns, left at the first one that is found in the text\<close>
  "first_match [] content = None"
| "first_match (label # labels) content =
     (case re_search (match_updated label) content of
        Some g \<Rightarrow> Some g
      | None \<Rightarrow> first_match labels content)"

definition stale_msg :: "int \<Rightarrow> string \<Rightarrow> string" where
  "stale_msg days_old since =
     ''Document hasn'' @ [CHR 0x27] @ ''t been updated in '' @ str_int days_old
       @ '' days (since '' @ since @ '')''"

definition no_timestamp_msg :: string where
  "no_timestamp_msg = ''No '' @ [CHR 0x27] @ ''Last Updated'' @ [CHR 0x27] @ '' timestamp found''"

definition check_last_updated ::
  "datetime \<Rightarrow> validator \<Rightarrow> path \<Rightarrow> string \<Rightarrow> error + validator" where
  "check_last_updated now v doc_path content =
     (case first_match updated_labels content of
        Some g \<Rightarrow>
          (case strptime g of
             Inl e \<Rightarrow> Inl e
           | Inr last_updated \<Rightarrow>
               (let days_old = days_between now last_updated
                in if days_old > 180
                   then Inr (v\<lparr>warnings := warnings v @ [stale_msg days_old (strftime last_updated)]\<rparr>)
                   else Inr v))
      | None \<Rightarrow>
          if \<not> str_in ''template'' (lower (path_name doc_path))
          then Inr (v\<lparr>warnings := warnings v @ [no_timestamp_msg]\<rparr>)
          else Inr v)"

subsubsection \<open>Required sections\<close>

definition match_heading :: "string \<Rightarrow> string \<Rightarrow> bool" where
  \<comment> \<open>\<^verbatim>\<open>#+\s+section\<close> at the start of the text under \<^verbatim>\<open>re.IGNORECASE\<close>, for a section
      name of letters and blanks\<close>
  "match_heading section s =
     (let hashes = takeWhile (\<lambda>x. x = CHR ''#'') s;
          r1 = dropWhile (\<lambda>x. x = CHR ''#'') s;
          blanks = takeWhile is_space r1;
          r2 = dropWhile is_space r1
      in hashes \<noteq> [] \<and> blanks \<noteq> [] \<and> prefix (lower section) (lower r2))"

definition required_sections :: "string \<Rightarrow> string list" where
  \<comment> \<open>the \<^verbatim>\<open>if\<close>/\<^verbatim>\<open>elif\<close> chain over the file name\<close>
  "required_sections name =
     (if str_in ''runbook'' (lower name) \<or> str_in ''RUNBOOK'' name
      then [''Overview'', ''Common Issues'', ''Monitoring'']
      else if str_in ''adr'' (lower name) \<or> prefix ''ADR'' name
      then [''Context'', ''Decision'', ''Consequences'']
      else if str_in ''api'' (lower name) \<or> str_in ''API'' name
      then [''Overview'', ''Endpoints'', ''Error Handling'']
      else [])"

fun check_sections_loop :: "string \<Rightarrow> string list \<Rightarrow> validator \<Rightarrow> validator" where
  "check_sections_loop content [] v = v"
| "check_sections_loop content (section # sections) v =
     (if \<not> search_lines (match_heading section) True content
      then check_sections_loop content sections
             (v\<lparr>errors := errors v @ [''Missing required section: '' @ section]\<rparr>)
      else check_sections_loop content sections v)"

definition check_required_sections :: "validator \<Rightarrow> path \<Rightarrow> string \<Rightarrow> validator" where
  "check_required_sections v doc_path content =
     (if str_in ''template'' (lower (path_name doc_path)) then v
      else check_sections_loop content (required_sections (path_name doc_path)) v)"

subsubsection \<open>TODO markers\<close>

definition todo_tail :: "string \<Rightarrow> (string \<times> string) option" where
  \<comment> \<open>\<^verbatim>\<open>\s*(.+)\<close> after the colon: the blanks are taken greedily and the rest of the line
      is the description; when the text ends in blanks, the engine gives blanks back
      until one that is no newline can start the description\<close>
  "todo_tail r =
     (let blanks = takeWhile is_space r;
          r1 = dropWhile is_space r
      in if r1 \<noteq> []
         then Some (takeWhile (\<lambda>x. x \<noteq> newline) r1, dropWhile (\<lambda>x. x \<noteq> newline) r1)
         else let kept = rev (dropWhile (\<lambda>x. x = newline) (rev blanks))
              in if kept = [] then None
                 else Some ([last kept], drop (length kept) blanks))"

fun match_todo_from :: "string list \<Rightarrow> string \<Rightarrow> ((string \<times> string) \<times> string) option" where
  \<comment> \<open>the alternatives of \<^verbatim>\<open>(TODO|FIXME|XXX|HACK):\s*(.+)\<close>, tried in their order\<close>
  "match_todo_from [] s = None"
| "match_todo_from (marker # markers) s =
     (if prefix (marker @ '':'') s
      then (case todo_tail (drop (length marker + 1) s) of
              Some (description, rest) \<Rightarrow> Some ((marker, description), rest)
            | None \<Rightarrow> match_todo_from markers s)
      else match_todo_from markers s)"

definition match_todo :: "string \<Rightarrow> ((string \<times> string) \<times> string) option" where
  "match_todo s = match_todo_from [''TODO'', ''FIXME'', ''XXX'', ''HACK''] s"

fun check_todos_loop :: "(string \<times> string) list \<Rightarrow> validator \<Rightarrow> validator" where
  "check_todos_loop [] v = v"
| "check_todos_loop ((marker, description) # todos) v =
     check_todos_loop todos
       (v\<lparr>warnings := warnings v @ [''Found '' @ marker @ '': '' @ take 50 description @ ''...'']\<rparr>)"

definition check_todo_markers :: "validator \<Rightarrow> string \<Rightarrow> validator" where
  "check_todo_markers v content = check_todos_loop (findall match_todo content) v"

subsubsection \<open>One document\<close>

type_synonym validation_result = "bool \<times> string list \<times> string list"

definition validate_file ::
  "filesystem \<Rightarrow> datetime \<Rightarrow> validator \<Rightarrow> path \<Rightarrow> error + (validation_result \<times> validator)"
  where
  \<comment> \<open>the first line prints \<^verbatim>\<open>doc_path.relative_to(self.project_root)\<close>, which raises for a
      path outside the project root; the other prints have no effect on the result\<close>
  "validate_file fs now v doc_path =
     (case relative_to doc_path (project_root v) of
        Inl e \<Rightarrow> Inl e
      | Inr shown \<Rightarrow>
          (let v0 = v\<lparr>errors := [], warnings := [], fixes_applied := []\<rparr>
           in case exists_probe fs doc_path of
                Inl e \<Rightarrow> Inl e
              | Inr found \<Rightarrow>
                  if \<not> found
                  then (let v1 = v0\<lparr>errors := errors v0
                                      @ [''File does not exist: '' @ path_str doc_path]\<rparr>
                        in Inr ((False, errors v1, warnings v1), v1))
                  else (case read_text fs doc_path of
                          Inl e \<Rightarrow> Inl e
                        | Inr content \<Rightarrow>
                            (case check_broken_links fs v0 doc_path content of
                               Inl e \<Rightarrow> Inl e
                             | Inr v1 \<Rightarrow>
                                 (case check_code_file_references fs v1 doc_path content of
                                    Inl e \<Rightarrow> Inl e
                                  | Inr v2 \<Rightarrow>
                                      (case check_last_updated now v2 doc_path content of
                                         Inl e \<Rightarrow> Inl e
                                       | Inr v3 \<Rightarrow>
                                           (let v4 = check_required_sections v3 doc_path content;
                                                v5 = check_todo_markers v4 content
                                            in Inr ((length (errors v5) = 0, errors v5,
                                                     warnings v5), v5))))))))"

subsubsection \<open>The run\<close>

record run_summary =
  total_errors :: nat
  total_warnings :: nat
  failed_files :: "path list"

fun validate_each ::
  "filesystem \<Rightarrow> datetime \<Rightarrow> path list \<Rightarrow> validator \<Rightarrow> run_summary \<Rightarrow> error + run_summary"
  where
  \<comment> \<open>the loop of \<^verbatim>\<open>main\<close> over the documents; an exception leaves it\<close>
  "validate_each fs now [] v acc = Inr acc"
| "validate_each fs now (doc_file # doc_files) v acc =
     (case validate_file fs now v doc_file of
        Inl e \<Rightarrow> Inl e
      | Inr ((success, errs, warns), v') \<Rightarrow>
          validate_each fs now doc_files v'
            (acc\<lparr>total_errors := total_errors acc + length errs,
                 total_warnings := total_warnings acc + length warns,
                 failed_files := (if \<not> success then failed_files acc @ [doc_file]
                                  else failed_files acc)\<rparr>))"

definition main :: "filesystem \<Rightarrow> datetime \<Rightarrow> path \<Rightarrow> bool \<Rightarrow> path list \<Rightarrow> error + nat" where
  \<comment> \<open>\<^verbatim>\<open>main\<close> from the list of documents on: the value is the status given to
      \<^verbatim>\<open>sys.exit\<close>\<close>
  "main fs now root fix doc_files =
     (case validate_each fs now doc_files (init_validator root fix)
             \<lparr>total_errors = 0, total_warnings = 0, failed_files = []\<rparr> of
        Inl e \<Rightarrow> Inl e
      | Inr summary \<Rightarrow> Inr (if failed_files summary \<noteq> [] then 1 else 0))"

subsection \<open>Reading a result\<close>

definition count_errors :: "error + (validation_result \<times> validator) \<Rightarrow> nat option" where
  "count_errors r = (case r of Inl e \<Rightarrow> None | Inr ((ok, es, ws), v) \<Rightarrow> Some (length es))"

definition same_config :: "validator \<Rightarrow> validator \<Rightarrow> bool" where
  "same_config v v' = (project_root v' = project_root v \<and> fix_mode v' = fix_mode v)"

text \<open>
  Two validators have the same configuration when they agree on the project root and on
  the fix mode; the lists of findings may differ.
\<close>

subsection \<open>The scenario of the users document\<close>

definition e2e_root :: path where
  "e2e_root = [''proj'']"

definition e2e_doc :: path where
  "e2e_doc = [''proj'', ''docs'', ''api'', ''users.md'']"

definition e2e_content :: string where
  "e2e_content = ''# Overview'' @ [newline] @ ''## Endpoints'' @ [newline]
     @ ''[spec](./missing.md)'' @ [newline]"

definition e2e_fs :: filesystem where
  "e2e_fs = map_of [([''proj''], Dir), ([''proj'', ''docs''], Dir),
     ([''proj'', ''docs'', ''api''], Dir), (e2e_doc, File e2e_content)]"

definition e2e_now :: datetime where
  "e2e_now = \<lparr>dt_date = \<lparr>year = 2024, month = 6, day = 30\<rparr>, dt_micros = 43200000000\<rparr>"

subsection \<open>Documents on which the script raises\<close>

text \<open>
  A project with two documents, one declaring the date \<^verbatim>\<open>2024-13-99\<close> and one linking
  to \<^verbatim>\<open>../../outside.md\<close>, a path above the project root; and a path outside the
  project, as an absolute argument of the command line gives it.
\<close>

definition crash_root :: path where
  "crash_root = [''proj'']"

definition bad_date_doc :: path where
  "bad_date_doc = [''proj'', ''docs'', ''stale.md'']"

definition bad_date_content :: string where
  "bad_date_content = ''Last Updated: 2024-13-99''"

definition escaping_doc :: path where
  "escaping_doc = [''proj'', ''docs'', ''up.md'']"

definition escaping_content :: string where
  "escaping_content = ''[up](../../outside.md)''"

definition crash_fs :: filesystem where
  "crash_fs = map_of [([''proj''], Dir), ([''proj'', ''docs''], Dir),
     (bad_date_doc, File bad_date_content), (escaping_doc, File escaping_content)]"

definition outside_doc :: path where
  "outside_doc = [''tmp'', ''nope.md'']"


subsection \<open>A run over several documents\<close>

text \<open>
  Two documents without findings other than the missing timestamp, one with a dead link,
  and the path of a document that does not exist.
\<close>

definition run_root :: path where
  "run_root = [''proj'']"

definition run_doc_a :: path where
  "run_doc_a = [''proj'', ''docs'', ''a.md'']"

definition run_doc_b :: path where
  "run_doc_b = [''proj'', ''docs'', ''b.md'']"

definition run_doc_c :: path where
  "run_doc_c = [''proj'', ''docs'', ''c.md'']"

definition run_doc_missing :: path where
  "run_doc_missing = [''proj'', ''docs'', ''none.md'']"

definition run_fs :: filesystem where
  "run_fs = map_of [([''proj''], Dir), ([''proj'', ''docs''], Dir),
     (run_doc_a, File ''hello''), (run_doc_b, File ''notes''),
     (run_doc_c, File ''[x](./gone.md)'')]"

subsection \<open>A declaration in the words of the specification\<close>

definition declares :: "string \<Rightarrow> string \<Rightarrow> string \<Rightarrow> bool" where
  \<comment> \<open>somewhere in the text stands the label, any white space, and a date of the shape
      \<^verbatim>\<open>YYYY-MM-DD\<close>\<close>
  "declares label content d =
     (\<exists>pre blanks rest. content = pre @ label @ blanks @ d @ rest
        \<and> list_all is_space blanks \<and> iso_date_shape d)"


subsection \<open>A runbook with two of its three sections\<close>



section \<open>Properties\<close>

subsection \<open>The configuration is kept, the findings are reset\<close>

lemma same_config_refl [simp]: "same_config v v"
  by (simp add: same_config_def)

lemma same_config_trans: "same_config a b \<Longrightarrow> same_config b c \<Longrightarrow> same_config a c"
  by (simp add: same_config_def)

lemma same_config_upd [simp]:
  "same_config v (w\<lparr>errors := es\<rparr>) = same_config v w"
  "same_config v (w\<lparr>warnings := ws\<rparr>) = same_config v w"
  "same_config v (w\<lparr>fixes_applied := fa\<rparr>) = same_config v w"
  by (simp_all add: same_config_def)

lemma check_links_loop_config:
  "check_links_loop fs d links v = Inr v' \<Longrightarrow> same_config v v'"
proof (induction links arbitrary: v)
  case Nil
  then show ?case by simp
next
  case (Cons l links)
  obtain link_text link_url where l: "l = (link_text, link_url)" by (cases l)
  have step: "same_config (v\<lparr>errors := es\<rparr>) v'"
    if "check_links_loop fs d links (v\<lparr>errors := es\<rparr>) = Inr v'" for es
    using that by (rule Cons.IH)
  from Cons.prems consider
    (skip) "check_links_loop fs d links v = Inr v'"
    | (add) rel where "check_links_loop fs d links
        (v\<lparr>errors := errors v @ [broken_link_msg link_text link_url rel]\<rparr>) = Inr v'"
    unfolding l by (auto split: if_splits sum.splits)
  then show ?case
  proof cases
    case skip
    then show ?thesis by (rule Cons.IH)
  next
    case add
    from step [OF this] show ?thesis by (simp add: same_config_def)
  qed
qed

lemma check_broken_links_config:
  "check_broken_links fs v d c = Inr v' \<Longrightarrow> same_config v v'"
  unfolding check_broken_links_def by (rule check_links_loop_config)

lemma check_refs_loop_config:
  "check_refs_loop fs ms v = Inr v' \<Longrightarrow> same_config v v'"
proof (induction ms arbitrary: v)
  case Nil
  then show ?case by simp
next
  case (Cons m ms)
  have step: "same_config (v\<lparr>warnings := ws\<rparr>) v'"
    if "check_refs_loop fs ms (v\<lparr>warnings := ws\<rparr>) = Inr v'" for ws
    using that by (rule Cons.IH)
  from Cons.prems consider
    (skip) "check_refs_loop fs ms v = Inr v'"
    | (add) "check_refs_loop fs ms
        (v\<lparr>warnings := warnings v
             @ [''Referenced file may not exist: '' @ replace_backslash m]\<rparr>) = Inr v'"
    by (auto simp: Let_def split: if_splits sum.splits)
  then show ?case
  proof cases
    case skip
    then show ?thesis by (rule Cons.IH)
  next
    case add
    from step [OF this] show ?thesis by (simp add: same_config_def)
  qed
qed

lemma check_patterns_loop_config:
  "check_patterns_loop fs c ps v = Inr v' \<Longrightarrow> same_config v v'"
proof (induction ps arbitrary: v)
  case Nil
  then show ?case by simp
next
  case (Cons p ps)
  from Cons.prems obtain w where
    w: "check_refs_loop fs (findall p c) v = Inr w" and
    r: "check_patterns_loop fs c ps w = Inr v'"
    by (auto split: sum.splits)
  from check_refs_loop_config [OF w] Cons.IH [OF r] show ?case
    by (rule same_config_trans)
qed

lemma check_code_file_references_config:
  "check_code_file_references fs v d c = Inr v' \<Longrightarrow> same_config v v'"
  unfolding check_code_file_references_def by (rule check_patterns_loop_config)

lemma check_sections_loop_config: "same_config v (check_sections_loop c ss v)"
proof (induction ss arbitrary: v)
  case Nil
  show ?case by simp
next
  case (Cons s ss)
  have "same_config (v\<lparr>errors := es\<rparr>) (check_sections_loop c ss (v\<lparr>errors := es\<rparr>))" for es
    by (rule Cons.IH)
  then have "same_config v (check_sections_loop c ss (v\<lparr>errors := es\<rparr>))" for es
    by (simp add: same_config_def)
  with Cons.IH [of v] show ?case by simp
qed

lemma check_required_sections_config: "same_config v (check_required_sections v d c)"
  by (simp add: check_required_sections_def check_sections_loop_config)

lemma check_todos_loop_config: "same_config v (check_todos_loop ts v)"
proof (induction ts arbitrary: v)
  case Nil
  show ?case by simp
next
  case (Cons t ts)
  obtain marker description where t: "t = (marker, description)" by (cases t)
  have "same_config (v\<lparr>warnings := ws\<rparr>) (check_todos_loop ts (v\<lparr>warnings := ws\<rparr>))" for ws
    by (rule Cons.IH)
  then have "same_config v (check_todos_loop ts (v\<lparr>warnings := ws\<rparr>))" for ws
    by (simp add: same_config_def)
  then show ?case by (simp add: t)
qed

lemma check_todo_markers_config: "same_config v (check_todo_markers v c)"
  by (simp add: check_todo_markers_def check_todos_loop_config)

lemma check_last_updated_config:
  "check_last_updated now v d c = Inr v' \<Longrightarrow> same_config v v'"
  by (auto simp: check_last_updated_def Let_def split: option.splits sum.splits if_splits)


lemma validate_file_config:
  assumes "validate_file fs now v d = Inr (r, v')"
  shows "same_config v v'"
proof -
  let ?v0 = "v\<lparr>errors := [], warnings := [], fixes_applied := []\<rparr>"
  have v0: "same_config v ?v0" by simp
  from assms obtain found where found: "exists_probe fs d = Inr found"
    by (auto simp: validate_file_def Let_def split: sum.splits)
  show ?thesis
  proof (cases found)
    case False
    with assms found show ?thesis
      by (auto simp: validate_file_def Let_def same_config_def split: sum.splits)
  next
    case True
    with assms found obtain content v1 v2 v3 where
      c1: "check_broken_links fs ?v0 d content = Inr v1" and
      c2: "check_code_file_references fs v1 d content = Inr v2" and
      c3: "check_last_updated now v2 d content = Inr v3" and
      c5: "v' = check_todo_markers (check_required_sections v3 d content) content"
      by (auto simp: validate_file_def Let_def split: sum.splits)
    have "same_config ?v0 v1" using c1 by (rule check_broken_links_config)
    moreover have "same_config v1 v2" using c2 by (rule check_code_file_references_config)
    moreover have "same_config v2 v3" using c3 by (rule check_last_updated_config)
    moreover have "same_config v3 (check_required_sections v3 d content)"
      by (rule check_required_sections_config)
    moreover have "same_config (check_required_sections v3 d content) v'"
      unfolding c5 by (rule check_todo_markers_config)
    ultimately show ?thesis using v0 unfolding same_config_def by simp
  qed
qed

lemma validate_file_reset:
  "validate_file fs now (v\<lparr>errors := es, warnings := ws, fixes_applied := fa\<rparr>) d =
   validate_file fs now v d"
proof -
  have eq: "v\<lparr>errors := es, warnings := ws, fixes_applied := fa,
          errors := [], warnings := [], fixes_applied := []\<rparr> =
        v\<lparr>errors := [], warnings := [], fixes_applied := []\<rparr>"
    by simp
  have pr: "project_root (v\<lparr>errors := es, warnings := ws, fixes_applied := fa\<rparr>) =
        project_root v"
    by simp
  show ?thesis
    unfolding validate_file_def eq pr by (rule refl)
qed

lemma validate_file_same_config:
  assumes "same_config v2 v1"
  shows "validate_file fs now v1 d = validate_file fs now v2 d"
proof -
  have "v1 = v2\<lparr>errors := errors v1, warnings := warnings v1, fixes_applied := fixes_applied v1\<rparr>"
    using assms by (cases v1, cases v2) (simp add: same_config_def)
  then show ?thesis
    using validate_file_reset by metis
qed

lemma validate_file_after:
  assumes "validate_file fs now v d0 = Inr (r0, v0)"
  shows "validate_file fs now v0 d = validate_file fs now v d"
  using validate_file_config [OF assms] by (rule validate_file_same_config)

lemma validate_file_success_flag:
  assumes "validate_file fs now v d = Inr ((ok, es, ws), v')"
  shows "ok = (es = [])"
  using assms
  by (auto simp: validate_file_def Let_def split: sum.splits if_splits)

lemma exists_probe_absent: "\<not> path_exists fs p \<Longrightarrow> exists_probe fs p = Inr False"
  by (simp add: exists_probe_def stat_refused_def path_exists_def)

lemma exists_probe_file: "fs p = Some (File t) \<Longrightarrow> exists_probe fs p = Inr True"
  by (simp add: exists_probe_def stat_refused_def path_exists_def)

lemma validate_file_missing:
  assumes "prefix (project_root v) d" "\<not> path_exists fs d"
  shows "validate_file fs now v d =
           Inr ((False, [''File does not exist: '' @ path_str d], []),
                v\<lparr>errors := [''File does not exist: '' @ path_str d], warnings := [],
                  fixes_applied := []\<rparr>)"
  using assms
  by (simp add: validate_file_def relative_to_def Let_def exists_probe_absent)

lemma validate_each_failed:
  assumes "validate_each fs now docs v acc = Inr s"
  shows "failed_files s =
           failed_files acc @ filter (\<lambda>d. count_errors (validate_file fs now v d) \<noteq> Some 0) docs
         \<and> (\<forall>d\<in>set docs. count_errors (validate_file fs now v d) \<noteq> None)"
  using assms
proof (induction docs arbitrary: v acc)
  case Nil
  then show ?case by simp
next
  case (Cons d docs)
  from Cons.prems obtain ok es ws v' where
    vf: "validate_file fs now v d = Inr ((ok, es, ws), v')"
    by (auto split: sum.splits)
  let ?acc = "acc\<lparr>total_errors := total_errors acc + length es,
                 total_warnings := total_warnings acc + length ws,
                 failed_files := (if \<not> ok then failed_files acc @ [d] else failed_files acc)\<rparr>"
  from Cons.prems vf have rest: "validate_each fs now docs v' ?acc = Inr s" by simp
  have same: "validate_file fs now v' x = validate_file fs now v x" for x
    using vf by (rule validate_file_after)
  have ok: "ok = (es = [])" using vf by (rule validate_file_success_flag)
  from Cons.IH [OF rest] show ?case
    by (auto simp: same vf count_errors_def ok)
qed

text \<open>
  Claim C7. The result of validating a document does not depend on what the validator
  holds from an earlier call: after any document \<open>d0\<close> has been validated, validating
  \<open>d\<close> gives what it gives on the validator before that call. With \<open>d0 = d\<close> the
  second validation of an unchanged document repeats the first.
\<close>

theorem validate_file_idempotent:
  assumes "validate_file fs now v d0 = Inr (r0, v0)"
  shows "validate_file fs now v0 d = validate_file fs now v d
         \<and> (d = d0 \<longrightarrow> (\<exists>v1. validate_file fs now v0 d = Inr (r0, v1)))"
proof -
  have same: "validate_file fs now v0 d = validate_file fs now v d"
    using validate_file_config [OF assms] by (rule validate_file_same_config)
  then show ?thesis using assms by auto
qed

lemma validate_each_returns:
  assumes "\<forall>d\<in>set docs. count_errors (validate_file fs now v d) \<noteq> None"
  shows "\<exists>s. validate_each fs now docs v acc = Inr s"
  using assms
proof (induction docs arbitrary: v acc)
  case Nil
  show ?case by simp
next
  case (Cons d docs)
  from Cons.prems have "count_errors (validate_file fs now v d) \<noteq> None" by simp
  then obtain ok es ws v' where vf: "validate_file fs now v d = Inr ((ok, es, ws), v')"
    by (auto simp: count_errors_def split: sum.splits)
  have same: "validate_file fs now v' x = validate_file fs now v x" for x
    using vf by (rule validate_file_after)
  from Cons.prems have "\<forall>x\<in>set docs. count_errors (validate_file fs now v' x) \<noteq> None"
    by (simp add: same)
  from Cons.IH [OF this] show ?case by (simp add: vf)
qed

lemma main_returns:
  assumes "\<forall>d\<in>set docs. count_errors (validate_file fs now (init_validator root fm) d) \<noteq> None"
  shows "\<exists>status. main fs now root fm docs = Inr status"
proof -
  from validate_each_returns [OF assms] obtain s where
    "validate_each fs now docs (init_validator root fm)
       \<lparr>total_errors = 0, total_warnings = 0, failed_files = []\<rparr> = Inr s"
    by blast
  then show ?thesis by (simp add: main_def)
qed

lemma main_status:
  assumes "main fs now root fm docs = Inr status"
  shows "(status = 0 \<longleftrightarrow>
            (\<forall>d\<in>set docs. count_errors (validate_file fs now (init_validator root fm) d) = Some 0))
         \<and> (status = 1 \<longleftrightarrow>
            (\<exists>d\<in>set docs. \<exists>n>0. count_errors (validate_file fs now (init_validator root fm) d) = Some n))
         \<and> ((\<exists>d\<in>set docs. \<not> path_exists fs d) \<longrightarrow> status = 1)
         \<and> (\<forall>d\<in>set docs. count_errors (validate_file fs now (init_validator root fm) d) \<noteq> None)"
proof -
  let ?v = "init_validator root fm"
  let ?bad = "\<lambda>d. count_errors (validate_file fs now ?v d) \<noteq> Some 0"
  from assms obtain s where
    s: "validate_each fs now docs ?v \<lparr>total_errors = 0, total_warnings = 0, failed_files = []\<rparr> = Inr s"
    and st: "status = (if failed_files s \<noteq> [] then 1 else 0)"
    by (auto simp: main_def split: sum.splits)
  from validate_each_failed [OF s] have
    ff: "failed_files s = filter ?bad docs" and
    ret: "\<forall>d\<in>set docs. count_errors (validate_file fs now ?v d) \<noteq> None"
    by simp_all
  have zero: "status = 0 \<longleftrightarrow> (\<forall>d\<in>set docs. \<not> ?bad d)"
    unfolding st ff by (simp add: filter_empty_conv)
  have one: "status = 1 \<longleftrightarrow> (\<exists>d\<in>set docs. ?bad d)"
    unfolding st ff by (simp add: filter_empty_conv)
  have bad_iff: "?bad d \<longleftrightarrow> (\<exists>n>0. count_errors (validate_file fs now ?v d) = Some n)"
    if "d \<in> set docs" for d
    using ret that by (cases "count_errors (validate_file fs now ?v d)") auto
  have missing: "?bad d" if "d \<in> set docs" "\<not> path_exists fs d" for d
  proof -
    from ret that obtain n where "count_errors (validate_file fs now ?v d) = Some n" by auto
    then have "prefix (project_root ?v) d"
      by (auto simp: count_errors_def validate_file_def relative_to_def split: sum.splits if_splits)
    from validate_file_missing [OF this that(2)] show ?thesis
      by (simp add: count_errors_def)
  qed
  show ?thesis
    using zero one bad_iff missing ret by blast
qed

text \<open>
  Claim C4. The run reaches \<^verbatim>\<open>sys.exit\<close> exactly when the validation of every
  document returns. Then the status is 0 exactly when every document has zero errors,
  and 1 exactly when some document has at least one error; no other status occurs, and a
  document that does not exist makes it 1. The warnings of the documents do not occur
  in any of the conditions.
\<close>

theorem main_exit_status:
  "((\<forall>d\<in>set docs. count_errors (validate_file fs now (init_validator root fm) d) \<noteq> None)
      \<longleftrightarrow> (\<exists>status. main fs now root fm docs = Inr status))
   \<and> (main fs now root fm docs = Inr 0 \<longleftrightarrow>
        (\<forall>d\<in>set docs. count_errors (validate_file fs now (init_validator root fm) d) = Some 0))
   \<and> (main fs now root fm docs = Inr 1 \<longleftrightarrow>
        (\<forall>d\<in>set docs. count_errors (validate_file fs now (init_validator root fm) d) \<noteq> None)
        \<and> (\<exists>d\<in>set docs. \<exists>n>0.
              count_errors (validate_file fs now (init_validator root fm) d) = Some n))
   \<and> (\<forall>status. main fs now root fm docs = Inr status \<longrightarrow> status = 0 \<or> status = 1)
   \<and> (\<forall>status. main fs now root fm docs = Inr status
         \<and> (\<exists>d\<in>set docs. \<not> path_exists fs d) \<longrightarrow> status = 1)"
proof -
  let ?ce = "\<lambda>d. count_errors (validate_file fs now (init_validator root fm) d)"
  note st = main_status [of fs now root fm docs]
  note rt = main_returns [of docs fs now root fm]
  have a: "(\<forall>d\<in>set docs. ?ce d \<noteq> None) \<longleftrightarrow> (\<exists>status. main fs now root fm docs = Inr status)"
    using st rt by blast
  have b: "main fs now root fm docs = Inr 0 \<longleftrightarrow> (\<forall>d\<in>set docs. ?ce d = Some 0)"
  proof
    assume "main fs now root fm docs = Inr 0"
    from st [OF this] show "\<forall>d\<in>set docs. ?ce d = Some 0" by blast
  next
    assume z: "\<forall>d\<in>set docs. ?ce d = Some 0"
    then have "\<forall>d\<in>set docs. ?ce d \<noteq> None" by simp
    from rt [OF this] obtain status where m: "main fs now root fm docs = Inr status" by blast
    from st [OF m] z have "status = 0" by blast
    with m show "main fs now root fm docs = Inr 0" by simp
  qed
  have c: "main fs now root fm docs = Inr 1 \<longleftrightarrow>
        (\<forall>d\<in>set docs. ?ce d \<noteq> None) \<and> (\<exists>d\<in>set docs. \<exists>n>0. ?ce d = Some n)"
  proof
    assume "main fs now root fm docs = Inr 1"
    from st [OF this] show "(\<forall>d\<in>set docs. ?ce d \<noteq> None) \<and> (\<exists>d\<in>set docs. \<exists>n>0. ?ce d = Some n)"
      by blast
  next
    assume h: "(\<forall>d\<in>set docs. ?ce d \<noteq> None) \<and> (\<exists>d\<in>set docs. \<exists>n>0. ?ce d = Some n)"
    then obtain status where m: "main fs now root fm docs = Inr status" using rt by blast
    from st [OF m] h have "status = 1" by blast
    with m show "main fs now root fm docs = Inr 1" by simp
  qed
  have d: "\<forall>status. main fs now root fm docs = Inr status \<longrightarrow> status = 0 \<or> status = 1"
    by (auto simp: main_def split: sum.splits)
  have e: "\<forall>status. main fs now root fm docs = Inr status
         \<and> (\<exists>d\<in>set docs. \<not> path_exists fs d) \<longrightarrow> status = 1"
    using st by blast
  from a b c d e show ?thesis by blast
qed

subsection \<open>The document \<^verbatim>\<open>docs/api/users.md\<close>\<close>

lemma resolve_from_plain: "''..'' \<notin> set p \<Longrightarrow> resolve_from acc p = acc @ p"
  by (induction p arbitrary: acc) auto

lemma resolve_plain: "''..'' \<notin> set p \<Longrightarrow> resolve p = p"
  by (simp add: resolve_def resolve_from_plain)

lemma check_patterns_loop_none:
  "\<forall>p\<in>set ps. findall p content = [] \<Longrightarrow> check_patterns_loop fs content ps v = Inr v"
  by (induction ps arbitrary: v) auto

lemma required_sections_users: "required_sections ''users.md'' = []"
  by (simp add: required_sections_def lower_def lower_char_def)

lemma users_no_template: "\<not> str_in ''template'' (lower ''users.md'')"
  by (simp add: lower_def lower_char_def)

lemma users_doc_validate:
  assumes root: "''..'' \<notin> set root"
    and doc: "doc = root @ [''docs'', ''api'', ''users.md'']"
    and is_file: "fs doc = Some (File content)"
    and links: "findall match_link content = [(''spec'', ''./missing.md'')]"
    and dead: "fs (root @ [''docs'', ''api'', ''missing.md'']) = None"
    and refs: "\<forall>p\<in>set file_patterns. findall p content = []"
    and stamp: "first_match updated_labels content = None"
    and todos: "findall match_todo content = []"
  shows "validate_file fs now (init_validator root fm) doc =
            Inr ((False,
                  [''Broken link: [spec](./missing.md) -> docs/api/missing.md not found''],
                  [no_timestamp_msg]),
                 \<lparr>project_root = root, fix_mode = fm,
                    errors = [''Broken link: [spec](./missing.md) -> docs/api/missing.md not found''],
                    warnings = [no_timestamp_msg], fixes_applied = []\<rparr>)"
proof -
  let ?v = "init_validator root fm"
  let ?msg = "''Broken link: [spec](./missing.md) -> docs/api/missing.md not found''"
  let ?v0 = "\<lparr>project_root = root, fix_mode = fm, errors = [], warnings = [],
               fixes_applied = []\<rparr>"
  let ?v1 = "\<lparr>project_root = root, fix_mode = fm, errors = [?msg], warnings = [],
               fixes_applied = []\<rparr>"
  let ?v3 = "\<lparr>project_root = root, fix_mode = fm, errors = [?msg],
               warnings = [no_timestamp_msg], fixes_applied = []\<rparr>"
  have name: "path_name doc = ''users.md''"
    by (simp add: doc path_name_def)
  have rel: "relative_to doc root = Inr ''docs/api/users.md''"
    by (simp add: relative_to_def doc)
  have ex: "exists_probe fs doc = Inr True" "read_text fs doc = Inr content"
    by (simp_all add: exists_probe_file [of fs doc content] read_text_def is_file)
  have target: "resolve_link (path_parent doc) ''./missing.md'' =
                Inr (root @ [''docs'', ''api'', ''missing.md''])"
    using root by (simp add: resolve_link_def doc path_parent_def butlast_append path_join_def
        parse_parts_def resolve_plain)
  have gone: "exists_probe fs (root @ [''docs'', ''api'', ''missing.md'']) = Inr False"
    by (rule exists_probe_absent) (simp add: path_exists_def dead)
  have l: "check_broken_links fs ?v0 doc content = Inr ?v1"
    by (simp add: check_broken_links_def links startswith_any_def target gone
        relative_to_def init_validator_def broken_link_msg_def)
  have r: "check_code_file_references fs ?v1 doc content = Inr ?v1"
    by (simp only: check_code_file_references_def check_patterns_loop_none [OF refs])
  have s: "check_last_updated now ?v1 doc content = Inr ?v3"
    by (simp add: check_last_updated_def stamp name users_no_template)
  have q: "check_required_sections ?v3 doc content = ?v3"
    by (simp add: check_required_sections_def name users_no_template required_sections_users)
  have t: "check_todo_markers ?v3 content = ?v3"
    by (simp add: check_todo_markers_def todos)
  show ?thesis
    unfolding validate_file_def by (simp add: init_validator_def rel ex l r s q t)
qed

lemma main_single:
  assumes "validate_file fs now (init_validator root fm) doc = Inr ((ok, es, ws), v')"
  shows "main fs now root fm [doc] = Inr (if ok then 0 else 1)"
  unfolding main_def validate_each.simps assms by simp

text \<open>
  Claim C1, as amended. The profile of a document is chosen from its file name alone, and
  \<^verbatim>\<open>users.md\<close> holds none of the three tokens: whatever headings the text has, no
  section is required. A document \<^verbatim>\<open>docs/api/users.md\<close> whose only link is the dead
  \<^verbatim>\<open>[spec](./missing.md)\<close>, with no code reference, no timestamp and no TODO marker,
  gets exactly one error (the broken link) and one warning (no timestamp); it fails and
  the run over it exits with status 1.
\<close>

theorem e2e_users_doc:
  assumes "''..'' \<notin> set root"
    and "doc = root @ [''docs'', ''api'', ''users.md'']"
    and "fs doc = Some (File content)"
    and "findall match_link content = [(''spec'', ''./missing.md'')]"
    and "fs (root @ [''docs'', ''api'', ''missing.md'']) = None"
    and "\<forall>p\<in>set file_patterns. findall p content = []"
    and "first_match updated_labels content = None"
    and "findall match_todo content = []"
  shows "(\<exists>v'. validate_file fs now (init_validator root fm) doc =
            Inr ((False,
                  [''Broken link: [spec](./missing.md) -> docs/api/missing.md not found''],
                  [no_timestamp_msg]), v'))
         \<and> main fs now root fm [doc] = Inr 1"
  using users_doc_validate [OF assms, of now fm] main_single [of fs now root fm doc False]
  by simp

lemma e2e_links: "findall match_link e2e_content = [(''spec'', ''./missing.md'')]"
  by (simp add: e2e_content_def match_link_def newline_def)

lemma e2e_refs: "\<forall>p\<in>set file_patterns. findall p e2e_content = []"
  by (simp add: file_patterns_def e2e_content_def match_ref_lined_def match_ref_rooted_def
      newline_def backtick_def)

lemma e2e_stamp: "first_match updated_labels e2e_content = None"
  by (simp add: e2e_content_def updated_labels_def match_updated_def newline_def)

lemma e2e_todos: "findall match_todo e2e_content = []"
  by (simp add: e2e_content_def match_todo_def newline_def)

lemma e2e_validate:
  "validate_file e2e_fs e2e_now (init_validator e2e_root False) e2e_doc =
     Inr ((False, [''Broken link: [spec](./missing.md) -> docs/api/missing.md not found''],
           [no_timestamp_msg]),
          \<lparr>project_root = e2e_root, fix_mode = False,
             errors = [''Broken link: [spec](./missing.md) -> docs/api/missing.md not found''],
             warnings = [no_timestamp_msg], fixes_applied = []\<rparr>)"
  using users_doc_validate [of e2e_root e2e_doc e2e_fs e2e_content e2e_now False]
    e2e_links e2e_refs e2e_stamp e2e_todos
  by (simp add: e2e_root_def e2e_doc_def e2e_fs_def)

text \<open>
  Claim C1 as stated asks for two errors; on the scenario the validator reports one.
\<close>

theorem e2e_counterexample:
  "count_errors (validate_file e2e_fs e2e_now (init_validator e2e_root False) e2e_doc) \<noteq> Some 2"
  by (simp add: e2e_validate count_errors_def)

theorem e2e_users_doc_witness:
  "''..'' \<notin> set e2e_root
   \<and> e2e_doc = e2e_root @ [''docs'', ''api'', ''users.md'']
   \<and> e2e_fs e2e_doc = Some (File e2e_content)
   \<and> findall match_link e2e_content = [(''spec'', ''./missing.md'')]
   \<and> e2e_fs (e2e_root @ [''docs'', ''api'', ''missing.md'']) = None
   \<and> findall match_ref_lined e2e_content = []
   \<and> findall (match_ref_rooted ''src/'') e2e_content = []
   \<and> findall (match_ref_rooted ''app/'') e2e_content = []
   \<and> first_match updated_labels e2e_content = None
   \<and> findall match_todo e2e_content = []
   \<and> (\<exists>v'. validate_file e2e_fs e2e_now (init_validator e2e_root False) e2e_doc =
            Inr ((False,
                  [''Broken link: [spec](./missing.md) -> docs/api/missing.md not found''],
                  [no_timestamp_msg]), v'))
   \<and> main e2e_fs e2e_now e2e_root False [e2e_doc] = Inr 1"
proof -
  have h: "''..'' \<notin> set e2e_root"
    "e2e_doc = e2e_root @ [''docs'', ''api'', ''users.md'']"
    "e2e_fs e2e_doc = Some (File e2e_content)"
    "e2e_fs (e2e_root @ [''docs'', ''api'', ''missing.md'']) = None"
    by (simp_all add: e2e_root_def e2e_doc_def e2e_fs_def)
  have refs: "findall match_ref_lined e2e_content = []"
    "findall (match_ref_rooted ''src/'') e2e_content = []"
    "findall (match_ref_rooted ''app/'') e2e_content = []"
    using e2e_refs by (simp_all add: file_patterns_def)
  show ?thesis
    using h refs e2e_links e2e_stamp e2e_todos
      e2e_users_doc [OF h(1) h(2) h(3) e2e_links h(4) e2e_refs e2e_stamp e2e_todos,
        of e2e_now False]
    by simp
qed

subsection \<open>The general theorems at the scenario\<close>

theorem validate_file_idempotent_witness:
  "validate_file e2e_fs e2e_now (init_validator e2e_root False) e2e_doc =
     Inr ((False, [''Broken link: [spec](./missing.md) -> docs/api/missing.md not found''],
           [no_timestamp_msg]),
          \<lparr>project_root = e2e_root, fix_mode = False,
             errors = [''Broken link: [spec](./missing.md) -> docs/api/missing.md not found''],
             warnings = [no_timestamp_msg], fixes_applied = []\<rparr>)
   \<and> validate_file e2e_fs e2e_now
         \<lparr>project_root = e2e_root, fix_mode = False,
            errors = [''Broken link: [spec](./missing.md) -> docs/api/missing.md not found''],
            warnings = [no_timestamp_msg], fixes_applied = []\<rparr> e2e_doc =
       validate_file e2e_fs e2e_now (init_validator e2e_root False) e2e_doc"
  using validate_file_idempotent [OF e2e_validate, of e2e_doc] e2e_validate by simp

subsection \<open>Uncaught exceptions\<close>

lemma bad_date_links: "findall match_link bad_date_content = []"
  by (simp add: bad_date_content_def match_link_def)

lemma bad_date_refs: "\<forall>p\<in>set file_patterns. findall p bad_date_content = []"
  by (simp add: file_patterns_def bad_date_content_def match_ref_lined_def match_ref_rooted_def
      backtick_def)

lemma bad_date_match: "first_match updated_labels bad_date_content = Some ''2024-13-99''"
  by (simp add: bad_date_content_def updated_labels_def match_updated_def is_space_def
      iso_date_prefix_def iso_date_shape_def is_digit_def)

lemma bad_date_strptime: "strptime ''2024-13-99'' = Inl ValueError"
  by (simp add: strptime_def iso_date_shape_def is_digit_def digits_val_def digit_val_def)

lemma bad_date_check:
  "check_last_updated now v bad_date_doc bad_date_content = Inl ValueError"
  by (simp add: check_last_updated_def bad_date_match bad_date_strptime)

lemma bad_date_validate:
  "validate_file crash_fs now (init_validator crash_root False) bad_date_doc = Inl ValueError"
proof -
  have rel: "relative_to bad_date_doc crash_root = Inr ''docs/stale.md''"
    by (simp add: relative_to_def bad_date_doc_def crash_root_def)
  have ex: "exists_probe crash_fs bad_date_doc = Inr True"
    "read_text crash_fs bad_date_doc = Inr bad_date_content"
    by (simp_all add: exists_probe_def stat_refused_def path_exists_def read_text_def
        crash_fs_def bad_date_doc_def)
  have l: "check_broken_links crash_fs v bad_date_doc bad_date_content = Inr v" for v
    by (simp add: check_broken_links_def bad_date_links)
  have r: "check_code_file_references crash_fs v bad_date_doc bad_date_content = Inr v" for v
    by (simp only: check_code_file_references_def check_patterns_loop_none [OF bad_date_refs])
  show ?thesis
    unfolding validate_file_def
    by (simp add: init_validator_def rel ex l r bad_date_check)
qed

lemma escaping_links: "findall match_link escaping_content = [(''up'', ''../../outside.md'')]"
  by (simp add: escaping_content_def match_link_def)

lemma escaping_target:
  "resolve_link (path_parent escaping_doc) ''../../outside.md'' = Inr [''outside.md'']"
  by (simp add: resolve_link_def escaping_doc_def path_parent_def path_join_def parse_parts_def
      resolve_def)

lemma escaping_check:
  "check_broken_links crash_fs
     \<lparr>project_root = crash_root, fix_mode = False, errors = [], warnings = [],
        fixes_applied = []\<rparr> escaping_doc escaping_content = Inl ValueError"
proof -
  have "exists_probe crash_fs [''outside.md''] = Inr False"
    by (simp add: exists_probe_def stat_refused_def path_exists_def crash_fs_def
        bad_date_doc_def escaping_doc_def)
  then show ?thesis
    by (simp add: check_broken_links_def escaping_links startswith_any_def escaping_target
        relative_to_def crash_root_def)
qed

lemma escaping_validate:
  "validate_file crash_fs now (init_validator crash_root False) escaping_doc = Inl ValueError"
proof -
  have rel: "relative_to escaping_doc crash_root = Inr ''docs/up.md''"
    by (simp add: relative_to_def escaping_doc_def crash_root_def)
  have ex: "exists_probe crash_fs escaping_doc = Inr True"
    "read_text crash_fs escaping_doc = Inr escaping_content"
    by (simp_all add: exists_probe_def stat_refused_def path_exists_def read_text_def
        crash_fs_def bad_date_doc_def escaping_doc_def)
  show ?thesis
    unfolding validate_file_def
    by (simp add: init_validator_def rel ex escaping_check)
qed

text \<open>
  Claim C2 says that the checkers never raise and that no check aborts the run. On the
  two inputs the claim names, the script raises \<^verbatim>\<open>ValueError\<close>: \<^verbatim>\<open>strptime\<close> rejects
  the month 13 that the pattern \<^verbatim>\<open>\d{2}\<close> lets through, and the message of a broken
  link calls \<^verbatim>\<open>relative_to\<close> on a target outside the project root. Nothing catches
  the exception, so the run over both documents ends there.
\<close>

theorem checkers_raise:
  "validate_file crash_fs e2e_now (init_validator crash_root False) bad_date_doc = Inl ValueError
   \<and> validate_file crash_fs e2e_now (init_validator crash_root False) escaping_doc = Inl ValueError
   \<and> main crash_fs e2e_now crash_root False [bad_date_doc, escaping_doc] = Inl ValueError"
  by (simp add: bad_date_validate escaping_validate main_def)

text \<open>
  Claim C5 says that every path that does not exist gives a result with one error. For a
  missing path outside the project root the first statement of \<^verbatim>\<open>validate_file\<close>,
  which prints the path relative to the root, raises before the existence test is
  reached. (Lemma \<open>validate_file_missing\<close> is the claim for the paths below the root.)
\<close>

theorem missing_outside_root_raises:
  "\<not> path_exists crash_fs outside_doc
   \<and> validate_file crash_fs e2e_now (init_validator crash_root False) outside_doc = Inl ValueError
   \<and> main crash_fs e2e_now crash_root False [outside_doc] = Inl ValueError"
  by (simp add: path_exists_def crash_fs_def outside_doc_def bad_date_doc_def escaping_doc_def
      validate_file_def relative_to_def init_validator_def crash_root_def main_def)

subsection \<open>Runs with status 0 and status 1\<close>

lemma check_todos_none:
  "findall match_todo content = [] \<Longrightarrow> check_todo_markers v content = v"
  by (simp add: check_todo_markers_def)

lemma check_sections_none:
  "required_sections (path_name doc) = [] \<Longrightarrow> check_required_sections v doc content = v"
  by (simp add: check_required_sections_def)

lemma check_last_updated_errors:
  "check_last_updated now v doc content = Inr v' \<Longrightarrow> errors v' = errors v"
  by (auto simp: check_last_updated_def Let_def split: option.splits sum.splits if_splits)

lemma validate_file_plain:
  assumes rel: "prefix root doc"
    and is_file: "fs doc = Some (File content)"
    and links: "findall match_link content = []"
    and refs: "\<forall>p\<in>set file_patterns. findall p content = []"
    and stamp: "first_match updated_labels content = None"
    and sections: "required_sections (path_name doc) = []"
    and todos: "findall match_todo content = []"
  shows "count_errors (validate_file fs now (init_validator root fm) doc) = Some 0"
proof -
  let ?v0 = "\<lparr>project_root = root, fix_mode = fm, errors = [], warnings = [],
               fixes_applied = []\<rparr>"
  have ex: "exists_probe fs doc = Inr True" "read_text fs doc = Inr content"
    by (simp_all add: exists_probe_file [of fs doc content] read_text_def is_file)
  have l: "check_broken_links fs ?v0 doc content = Inr ?v0"
    by (simp add: check_broken_links_def links)
  have r: "check_code_file_references fs ?v0 doc content = Inr ?v0"
    by (simp only: check_code_file_references_def check_patterns_loop_none [OF refs])
  obtain v3 where s: "check_last_updated now ?v0 doc content = Inr v3"
    by (cases "str_in ''template'' (lower (path_name doc))")
       (simp_all add: check_last_updated_def stamp)
  from check_last_updated_errors [OF s] have e: "errors v3 = []" by simp
  have q: "check_required_sections v3 doc content = v3"
    by (rule check_sections_none [OF sections])
  have t: "check_todo_markers v3 content = v3"
    by (rule check_todos_none [OF todos])
  show ?thesis
    unfolding validate_file_def count_errors_def
    using rel by (simp add: init_validator_def relative_to_def ex l r s q t e)
qed

lemma run_doc_a_count:
  "count_errors (validate_file run_fs now (init_validator run_root False) run_doc_a) = Some 0"
  by (rule validate_file_plain [where content = "''hello''"])
     (simp_all add: run_root_def run_doc_a_def run_doc_b_def run_doc_c_def run_fs_def
        match_link_def file_patterns_def match_ref_lined_def match_ref_rooted_def backtick_def
        updated_labels_def match_updated_def path_name_def required_sections_def lower_def
        lower_char_def match_todo_def)

lemma run_doc_b_count:
  "count_errors (validate_file run_fs now (init_validator run_root False) run_doc_b) = Some 0"
  by (rule validate_file_plain [where content = "''notes''"])
     (simp_all add: run_root_def run_doc_a_def run_doc_b_def run_doc_c_def run_fs_def
        match_link_def file_patterns_def match_ref_lined_def match_ref_rooted_def backtick_def
        updated_labels_def match_updated_def path_name_def required_sections_def lower_def
        lower_char_def match_todo_def)

lemma run_doc_missing_count:
  "count_errors (validate_file run_fs now (init_validator run_root False) run_doc_missing)
     = Some 1"
proof -
  have "prefix (project_root (init_validator run_root False)) run_doc_missing"
    by (simp add: init_validator_def run_root_def run_doc_missing_def)
  moreover have "\<not> path_exists run_fs run_doc_missing"
    by (simp add: path_exists_def run_fs_def run_doc_missing_def run_doc_a_def run_doc_b_def
        run_doc_c_def)
  ultimately show ?thesis
    by (simp add: validate_file_missing count_errors_def)
qed

lemma run_doc_c_count:
  "count_errors (validate_file run_fs now (init_validator run_root False) run_doc_c) = Some 1"
proof -
  let ?c = "''[x](./gone.md)''"
  let ?msg = "''Broken link: [x](./gone.md) -> docs/gone.md not found''"
  let ?v0 = "\<lparr>project_root = run_root, fix_mode = False, errors = [], warnings = [],
               fixes_applied = []\<rparr>"
  let ?v1 = "\<lparr>project_root = run_root, fix_mode = False, errors = [?msg], warnings = [],
               fixes_applied = []\<rparr>"
  have rel: "relative_to run_doc_c run_root = Inr ''docs/c.md''"
    by (simp add: relative_to_def run_doc_c_def run_root_def)
  have ex: "exists_probe run_fs run_doc_c = Inr True" "read_text run_fs run_doc_c = Inr ?c"
    by (simp_all add: exists_probe_def stat_refused_def path_exists_def read_text_def run_fs_def
        run_doc_a_def run_doc_b_def run_doc_c_def)
  have links: "findall match_link ?c = [(''x'', ''./gone.md'')]"
    by (simp add: match_link_def)
  have target: "resolve_link (path_parent run_doc_c) ''./gone.md'' =
                Inr [''proj'', ''docs'', ''gone.md'']"
    by (simp add: resolve_link_def run_doc_c_def path_parent_def path_join_def parse_parts_def
        resolve_def)
  have gone: "exists_probe run_fs [''proj'', ''docs'', ''gone.md''] = Inr False"
    by (simp add: exists_probe_def stat_refused_def path_exists_def run_fs_def
        run_doc_a_def run_doc_b_def run_doc_c_def)
  have l: "check_broken_links run_fs ?v0 run_doc_c ?c = Inr ?v1"
    unfolding check_broken_links_def links
    by (simp add: startswith_any_def target gone relative_to_def run_root_def
        broken_link_msg_def)
  have refs: "\<forall>p\<in>set file_patterns. findall p ?c = []"
    by (simp add: file_patterns_def match_ref_lined_def match_ref_rooted_def backtick_def)
  have r: "check_code_file_references run_fs ?v1 run_doc_c ?c = Inr ?v1"
    by (simp only: check_code_file_references_def check_patterns_loop_none [OF refs])
  have stamp: "first_match updated_labels ?c = None"
    by (simp add: updated_labels_def match_updated_def)
  obtain v3 where s: "check_last_updated now ?v1 run_doc_c ?c = Inr v3"
    by (cases "str_in ''template'' (lower (path_name run_doc_c))")
       (simp_all add: check_last_updated_def stamp)
  from check_last_updated_errors [OF s] have e: "errors v3 = [?msg]" by simp
  have q: "check_required_sections v3 run_doc_c ?c = v3"
    by (rule check_sections_none)
       (simp add: run_doc_c_def path_name_def required_sections_def lower_def lower_char_def)
  have t: "check_todo_markers v3 ?c = v3"
    by (rule check_todos_none) (simp add: match_todo_def)
  show ?thesis
    unfolding validate_file_def count_errors_def
    by (simp add: init_validator_def rel ex l r s q t e)
qed

theorem main_exit_status_witness:
  "count_errors (validate_file run_fs e2e_now (init_validator run_root False) run_doc_a) = Some 0
   \<and> count_errors (validate_file run_fs e2e_now (init_validator run_root False) run_doc_b)
       = Some 0
   \<and> count_errors (validate_file run_fs e2e_now (init_validator run_root False) run_doc_c)
       = Some 1
   \<and> count_errors (validate_file run_fs e2e_now (init_validator run_root False)
         run_doc_missing) = Some 1
   \<and> main run_fs e2e_now run_root False [run_doc_a, run_doc_b] = Inr 0
   \<and> main run_fs e2e_now run_root False [run_doc_a, run_doc_c, run_doc_b] = Inr 1
   \<and> main run_fs e2e_now run_root False [run_doc_a, run_doc_missing] = Inr 1"
proof -
  note counts = run_doc_a_count [of e2e_now] run_doc_b_count [of e2e_now]
    run_doc_c_count [of e2e_now] run_doc_missing_count [of e2e_now]
  have "main run_fs e2e_now run_root False [run_doc_a, run_doc_b] = Inr 0"
    using main_exit_status [of "[run_doc_a, run_doc_b]" run_fs e2e_now run_root False] counts
    by simp
  moreover have "main run_fs e2e_now run_root False [run_doc_a, run_doc_c, run_doc_b] = Inr 1"
    using main_exit_status [of "[run_doc_a, run_doc_c, run_doc_b]" run_fs e2e_now run_root False]
      counts
    by simp
  moreover have "main run_fs e2e_now run_root False [run_doc_a, run_doc_missing] = Inr 1"
    using main_exit_status [of "[run_doc_a, run_doc_missing]" run_fs e2e_now run_root False]
      counts
    by simp
  ultimately show ?thesis using counts by simp
qed

subsection \<open>The timestamp check\<close>

lemma days_between_eq:
  assumes "dt_micros now < day_micros"
  shows "days_between now d = int (toordinal (dt_date now)) - int (toordinal d)"
proof -
  let ?D = "int day_micros"
  let ?a = "int (toordinal (dt_date now))"
  let ?b = "int (toordinal d)"
  let ?t = "int (dt_micros now)"
  have D: "0 < ?D" by (simp add: day_micros_def)
  have t: "0 \<le> ?t" "?t < ?D" using assms by simp_all
  have split: "?a * ?D + ?t - ?b * ?D = ?t + (?a - ?b) * ?D"
    by (simp add: algebra_simps)
  have "(?t + (?a - ?b) * ?D) div ?D = (?a - ?b) + ?t div ?D"
    using D by (intro div_mult_self1) simp
  moreover have "?t div ?D = 0" using t by simp
  ultimately have "(?a * ?D + ?t - ?b * ?D) div ?D = ?a - ?b"
    unfolding split by simp
  then show ?thesis unfolding days_between_def .
qed

lemma digit_cases:
  assumes "is_digit c"
  shows "digit_val c < 10 \<and> digit_char (digit_val c) = c"
proof -
  from assms consider "c = CHR ''0''" | "c = CHR ''1''" | "c = CHR ''2''" | "c = CHR ''3''"
    | "c = CHR ''4''" | "c = CHR ''5''" | "c = CHR ''6''" | "c = CHR ''7''" | "c = CHR ''8''"
    | "c = CHR ''9''"
    by (auto simp: is_digit_def)
  then show ?thesis
    by cases (simp_all add: digit_val_def digit_char_def)
qed

lemma digit_char_step: "digit_char (10 * q + r) = digit_char r"
  by (simp add: digit_char_def)

lemma pad2_digits:
  assumes "a < 10" "b < 10"
  shows "pad2 (10 * a + b) = [digit_char a, digit_char b]"
proof -
  have "(10 * a + b) div 10 = a" using assms by simp
  then show ?thesis by (simp add: pad2_def digit_char_step)
qed

lemma pad4_digits:
  assumes "a < 10" "b < 10" "c < 10" "d < 10"
  shows "pad4 (10 * (10 * (10 * a + b) + c) + d) =
         [digit_char a, digit_char b, digit_char c, digit_char d]"
proof -
  let ?n = "10 * (10 * (10 * a + b) + c) + d"
  have 1: "?n div 10 = 10 * (10 * a + b) + c" using assms by simp
  have 2: "?n div 100 = 10 * a + b" using assms by simp
  have 3: "?n div 1000 = a" using assms by simp
  show ?thesis
    unfolding pad4_def 1 2 3 by (simp only: digit_char_step)
qed

lemma iso_date_shape_chars:
  assumes "iso_date_shape s"
  obtains y1 y2 y3 y4 m1 m2 d1 d2 where
    "s = [y1, y2, y3, y4, CHR ''-'', m1, m2, CHR ''-'', d1, d2]"
    "is_digit y1" "is_digit y2" "is_digit y3" "is_digit y4"
    "is_digit m1" "is_digit m2" "is_digit d1" "is_digit d2"
proof -
  from assms have "length s = 10" by (simp add: iso_date_shape_def)
  then obtain y1 y2 y3 y4 h1 m1 m2 h2 d1 d2 where
    s: "s = [y1, y2, y3, y4, h1, m1, m2, h2, d1, d2]"
    by (auto simp: eval_nat_numeral length_Suc_conv)
  from assms have "h1 = CHR ''-''" "h2 = CHR ''-''"
    "is_digit y1" "is_digit y2" "is_digit y3" "is_digit y4"
    "is_digit m1" "is_digit m2" "is_digit d1" "is_digit d2"
    by (simp_all add: iso_date_shape_def s)
  with s show ?thesis
    using that [of y1 y2 y3 y4 m1 m2 d1 d2] by simp
qed

lemma strptime_fields:
  assumes "strptime s = Inr d"
  shows "iso_date_shape s
         \<and> d = \<lparr>year = digits_val (take 4 s), month = digits_val (take 2 (drop 5 s)),
                day = digits_val (take 2 (drop 8 s))\<rparr>"
proof (cases "iso_date_shape s")
  case False
  with assms show ?thesis by (simp add: strptime_def)
next
  case True
  let ?y = "digits_val (take 4 s)"
  let ?m = "digits_val (take 2 (drop 5 s))"
  let ?d = "digits_val (take 2 (drop 8 s))"
  have "strptime s =
        (if 1 \<le> ?y \<and> 1 \<le> ?m \<and> ?m \<le> 12 \<and> 1 \<le> ?d \<and> ?d \<le> days_in_month ?y ?m
         then Inr \<lparr>year = ?y, month = ?m, day = ?d\<rparr> else Inl ValueError)"
    unfolding strptime_def Let_def using True by (rule_tac if_not_P) simp
  with assms True show ?thesis
    by (cases "1 \<le> ?y \<and> 1 \<le> ?m \<and> ?m \<le> 12 \<and> 1 \<le> ?d \<and> ?d \<le> days_in_month ?y ?m")
       (simp_all only: if_True if_False sum.inject sum.distinct simp_thms)
qed


lemma digits_val4:
  "digits_val [a, b, c, d] =
     10 * (10 * (10 * digit_val a + digit_val b) + digit_val c) + digit_val d"
  by (simp add: digits_val_def)

lemma digits_val2: "digits_val [a, b] = 10 * digit_val a + digit_val b"
  by (simp add: digits_val_def)

lemma take_drop_date:
  "take 4 [y1, y2, y3, y4, h1, m1, m2, h2, d1, d2] = [y1, y2, y3, y4]"
  "take 2 (drop 5 [y1, y2, y3, y4, h1, m1, m2, h2, d1, d2]) = [m1, m2]"
  "take 2 (drop 8 [y1, y2, y3, y4, h1, m1, m2, h2, d1, d2]) = [d1, d2]"
  by simp_all

lemma str_nat_pad4:
  assumes "1000 \<le> n" "n < 10000"
  shows "str_nat n = pad4 n"
proof -
  have a: "\<not> n < 10" "\<not> n div 10 < 10" "\<not> n div 100 < 10" "n div 1000 < 10"
    using assms by simp_all
  have b: "n div 10 div 10 = n div 100" "n div 100 div 10 = n div 1000"
    by (simp_all add: div_mult2_eq [symmetric])
  have "str_nat n = str_nat (n div 10) @ [digit_char n]"
    using a(1) by (subst str_nat.simps) simp
  also have "str_nat (n div 10) = str_nat (n div 100) @ [digit_char (n div 10)]"
    using a(2) b(1) by (subst str_nat.simps) simp
  also have "str_nat (n div 100) = str_nat (n div 1000) @ [digit_char (n div 100)]"
    using a(3) b(2) by (subst str_nat.simps) simp
  also have "str_nat (n div 1000) = [digit_char (n div 1000)]"
    using a(4) by (subst str_nat.simps) simp
  finally show ?thesis by (simp add: pad4_def)
qed

lemma strptime_chars:
  assumes "strptime [y1, y2, y3, y4, h1, m1, m2, h2, d1, d2] = Inr d"
  shows "year d = digits_val [y1, y2, y3, y4]"
    and "month d = digits_val [m1, m2]"
    and "day d = digits_val [d1, d2]"
proof -
  have "d = \<lparr>year = digits_val [y1, y2, y3, y4], month = digits_val [m1, m2],
             day = digits_val [d1, d2]\<rparr>"
    using strptime_fields [OF assms, THEN conjunct2] unfolding take_drop_date .
  then show "year d = digits_val [y1, y2, y3, y4]" "month d = digits_val [m1, m2]"
    "day d = digits_val [d1, d2]"
    by simp_all
qed

lemma strptime_strftime:
  assumes "strptime s = Inr d"
  shows "pad4 (year d) @ ''-'' @ pad2 (month d) @ ''-'' @ pad2 (day d) = s \<and> year d < 10000"
proof (rule iso_date_shape_chars [OF strptime_fields [OF assms, THEN conjunct1]])
  fix y1 y2 y3 y4 m1 m2 d1 d2
  assume s: "s = [y1, y2, y3, y4, CHR ''-'', m1, m2, CHR ''-'', d1, d2]"
    and dg: "is_digit y1" "is_digit y2" "is_digit y3" "is_digit y4"
      "is_digit m1" "is_digit m2" "is_digit d1" "is_digit d2"
  note lt = dg [THEN digit_cases, THEN conjunct1]
  note dc = dg [THEN digit_cases, THEN conjunct2]
  note fields = strptime_chars [OF assms [unfolded s]]
  have y: "pad4 (year d) = [y1, y2, y3, y4]"
    unfolding fields digits_val4 pad4_digits [OF lt(1-4)] dc by (rule refl)
  have mo: "pad2 (month d) = [m1, m2]"
    unfolding fields digits_val2 pad2_digits [OF lt(5,6)] dc by (rule refl)
  have da: "pad2 (day d) = [d1, d2]"
    unfolding fields digits_val2 pad2_digits [OF lt(7,8)] dc by (rule refl)
  have "pad4 (year d) @ ''-'' @ pad2 (month d) @ ''-'' @ pad2 (day d) = s"
    unfolding y mo da s by simp
  moreover have "year d < 10000"
    unfolding fields digits_val4 using lt(1-4) by simp
  ultimately show ?thesis ..
qed

lemma strftime_original:
  assumes "strptime s = Inr d" "1000 \<le> year d"
  shows "strftime d = s"
  unfolding strftime_def
    str_nat_pad4 [OF assms(2) strptime_strftime [OF assms(1), THEN conjunct2]]
  by (rule strptime_strftime [OF assms(1), THEN conjunct1])

lemma str_int_181: "str_int 181 = ''181''"
  by (simp add: str_int_def str_nat.simps digit_char_def)

lemma check_last_updated_found:
  assumes "first_match updated_labels content = Some ds" "strptime ds = Inr d"
    "dt_micros now < day_micros"
  shows "check_last_updated now v doc content =
         (if 180 < int (toordinal (dt_date now)) - int (toordinal d)
          then Inr (v\<lparr>warnings := warnings v @
                 [stale_msg (int (toordinal (dt_date now)) - int (toordinal d)) (strftime d)]\<rparr>)
          else Inr v)"
  by (simp add: check_last_updated_def assms(1,2) days_between_eq [OF assms(3)])

lemma stale_msg_181:
  "stale_msg 181 since =
     ''Document hasn'' @ [CHR 0x27] @ ''t been updated in 181 days (since '' @ since @ '')''"
  unfolding stale_msg_def str_int_181 by simp

lemma stamp_match:
  "first_match updated_labels ''Last Updated: 2024-01-01'' = Some ''2024-01-01''"
  by (simp add: updated_labels_def match_updated_def is_space_def
      iso_date_prefix_def iso_date_shape_def is_digit_def)

lemma stamp_strptime:
  "strptime ''2024-01-01'' = Inr \<lparr>year = 2024, month = 1, day = 1\<rparr>"
  by (simp add: strptime_def iso_date_shape_def is_digit_def digits_val_def digit_val_def
      days_in_month_def)

lemma stamp_ordinals:
  "toordinal \<lparr>year = 2024, month = 1, day = 1\<rparr> = 738886"
  "toordinal \<lparr>year = 2024, month = 6, day = 29\<rparr> = 739066"
  "toordinal \<lparr>year = 2024, month = 6, day = 30\<rparr> = 739067"
  by (simp_all add: toordinal_def days_before_year_def days_before_month_def days_in_month_def
      is_leap_def upt_rec)

text \<open>
  Claim C3. Let the declaration found in the text be a valid date. The check compares the
  number of days from that date to the current date with 180: at 181 days it adds the
  warning \<^verbatim>\<open>Document hasn't been updated in 181 days (since ...)\<close>, which names the day
  count and the date, and at 180 days it adds nothing. The date is printed as
  \<^verbatim>\<open>strftime\<close> prints it, which is the text of the declaration itself from the year 1000
  on.
\<close>

theorem staleness_threshold:
  assumes "first_match updated_labels content = Some ds"
    and "strptime ds = Inr d"
    and "dt_micros now < day_micros"
  shows "(int (toordinal (dt_date now)) - int (toordinal d) = 181 \<longrightarrow>
            check_last_updated now v doc content =
              Inr (v\<lparr>warnings := warnings v @
                [''Document hasn'' @ [CHR 0x27] @ ''t been updated in 181 days (since ''
                   @ strftime d @ '')'']\<rparr>))
         \<and> (int (toordinal (dt_date now)) - int (toordinal d) = 180 \<longrightarrow>
            check_last_updated now v doc content = Inr v)
         \<and> check_last_updated now v doc content =
             (if 180 < int (toordinal (dt_date now)) - int (toordinal d)
              then Inr (v\<lparr>warnings := warnings v @
                     [stale_msg (int (toordinal (dt_date now)) - int (toordinal d))
                        (strftime d)]\<rparr>)
              else Inr v)
         \<and> (1000 \<le> year d \<longrightarrow> strftime d = ds)"
proof -
  note found = check_last_updated_found [OF assms, of v doc]
  have "int (toordinal (dt_date now)) - int (toordinal d) = 181 \<longrightarrow>
        check_last_updated now v doc content =
          Inr (v\<lparr>warnings := warnings v @
            [''Document hasn'' @ [CHR 0x27] @ ''t been updated in 181 days (since ''
               @ strftime d @ '')'']\<rparr>)"
    unfolding found stale_msg_181 [symmetric] by simp
  moreover have "int (toordinal (dt_date now)) - int (toordinal d) = 180 \<longrightarrow>
        check_last_updated now v doc content = Inr v"
    unfolding found by simp
  moreover have "1000 \<le> year d \<longrightarrow> strftime d = ds"
    using strftime_original [OF assms(2)] by blast
  ultimately show ?thesis using found by blast
qed

theorem staleness_threshold_witness:
  "check_last_updated e2e_now (init_validator e2e_root False) e2e_doc ''Last Updated: 2024-01-01''
     = Inr ((init_validator e2e_root False)\<lparr>warnings :=
         [''Document hasn'' @ [CHR 0x27] @ ''t been updated in 181 days (since 2024-01-01)'']\<rparr>)
   \<and> check_last_updated \<lparr>dt_date = \<lparr>year = 2024, month = 6, day = 29\<rparr>, dt_micros = 43200000000\<rparr>
        (init_validator e2e_root False) e2e_doc ''Last Updated: 2024-01-01''
     = Inr (init_validator e2e_root False)"
proof -
  let ?d = "\<lparr>year = 2024, month = 1, day = 1\<rparr>"
  let ?eve = "\<lparr>dt_date = \<lparr>year = 2024, month = 6, day = 29\<rparr>, dt_micros = 43200000000\<rparr>"
  let ?v = "init_validator e2e_root False"
  have t: "dt_micros e2e_now < day_micros" "dt_micros ?eve < day_micros"
    by (simp_all add: e2e_now_def day_micros_def)
  have o: "int (toordinal (dt_date e2e_now)) - int (toordinal ?d) = 181"
    "int (toordinal (dt_date ?eve)) - int (toordinal ?d) = 180"
    unfolding e2e_now_def datetime.select_convs stamp_ordinals by simp_all
  have y: "1000 \<le> year ?d" by simp
  from staleness_threshold [OF stamp_match stamp_strptime t(1), of ?v e2e_doc] o(1) y
  have a: "check_last_updated e2e_now ?v e2e_doc ''Last Updated: 2024-01-01''
     = Inr (?v\<lparr>warnings := warnings ?v @
         [''Document hasn'' @ [CHR 0x27] @ ''t been updated in 181 days (since ''
            @ ''2024-01-01'' @ '')'']\<rparr>)"
    by metis
  from staleness_threshold [OF stamp_match stamp_strptime t(2), of ?v e2e_doc] o(2)
  have b: "check_last_updated ?eve ?v e2e_doc ''Last Updated: 2024-01-01'' = Inr ?v"
    by blast
  have w: "warnings ?v = []" by (simp add: init_validator_def)
  show ?thesis unfolding a b w by simp
qed

lemma findings_exI:
  "P w \<Longrightarrow> \<exists>ws. v\<lparr>warnings := warnings v @ w\<rparr> = v\<lparr>warnings := warnings v @ ws\<rparr> \<and> P ws"
  by blast

text \<open>
  Claim C9. The timestamp check leaves the errors alone and adds at most one warning.
  With a declaration in the text it adds nothing or one staleness warning, never the
  warning of a missing timestamp; without one it adds that warning or, for a file whose
  name contains \<^verbatim>\<open>template\<close>, nothing, never a staleness warning. It raises only when
  the declaration is not a date of the calendar.
\<close>

theorem timestamp_one_finding:
  "(case check_last_updated now v doc content of
      Inl e \<Rightarrow> (\<exists>g. first_match updated_labels content = Some g \<and> strptime g = Inl e)
    | Inr v' \<Rightarrow>
        (\<exists>ws. v' = v\<lparr>warnings := warnings v @ ws\<rparr> \<and> length ws \<le> 1
           \<and> (\<forall>g. first_match updated_labels content = Some g \<longrightarrow>
                 no_timestamp_msg \<notin> set ws
                 \<and> (ws = [] \<or> (\<exists>n since. 180 < n \<and> ws = [stale_msg n since])))
           \<and> (first_match updated_labels content = None \<longrightarrow>
                 (\<forall>n since. stale_msg n since \<notin> set ws)
                 \<and> (str_in ''template'' (lower (path_name doc)) \<longrightarrow> ws = [])
                 \<and> (\<not> str_in ''template'' (lower (path_name doc)) \<longrightarrow>
                      ws = [no_timestamp_msg]))))"
proof -
  have differ: "no_timestamp_msg \<noteq> stale_msg n since" for n since
    by (simp add: stale_msg_def no_timestamp_msg_def)
  show ?thesis
  proof (cases "first_match updated_labels content")
    case None
    show ?thesis
    proof (cases "str_in ''template'' (lower (path_name doc))")
      case True
      have c: "check_last_updated now v doc content = Inr (v\<lparr>warnings := warnings v @ []\<rparr>)"
        by (simp add: check_last_updated_def None True)
      show ?thesis
        unfolding c sum.case by (rule findings_exI) (simp add: None True)
    next
      case False
      have c: "check_last_updated now v doc content =
               Inr (v\<lparr>warnings := warnings v @ [no_timestamp_msg]\<rparr>)"
        by (simp add: check_last_updated_def None False)
      show ?thesis
        unfolding c sum.case by (rule findings_exI) (simp add: None False differ [symmetric])
    qed
  next
    case (Some g)
    show ?thesis
    proof (cases "strptime g")
      case (Inl e)
      have c: "check_last_updated now v doc content = Inl e"
        by (simp add: check_last_updated_def Some Inl)
      show ?thesis
        unfolding c sum.case using Some Inl by simp
    next
      case (Inr d)
      show ?thesis
      proof (cases "180 < days_between now d")
        case True
        have c: "check_last_updated now v doc content =
            Inr (v\<lparr>warnings := warnings v @ [stale_msg (days_between now d) (strftime d)]\<rparr>)"
          by (simp add: check_last_updated_def Some Inr True)
        have ex: "\<exists>n since. 180 < n \<and>
            [stale_msg (days_between now d) (strftime d)] = [stale_msg n since]"
          using True by blast
        show ?thesis
          unfolding c sum.case by (rule findings_exI) (use ex in \<open>simp add: Some differ\<close>)
      next
        case False
        have c: "check_last_updated now v doc content = Inr (v\<lparr>warnings := warnings v @ []\<rparr>)"
          by (simp add: check_last_updated_def Some Inr False)
        show ?thesis
          unfolding c sum.case by (rule findings_exI) (simp add: Some)
      qed
    qed
  qed
qed

lemma stamp_check:
  "check_last_updated e2e_now v doc ''Last Updated: 2024-01-01'' =
     Inr (v\<lparr>warnings := warnings v @ [stale_msg 181 ''2024-01-01'']\<rparr>)"
proof -
  have t: "dt_micros e2e_now < day_micros"
    by (simp add: e2e_now_def day_micros_def)
  have o: "int (toordinal (dt_date e2e_now))
             - int (toordinal \<lparr>year = 2024, month = 1, day = 1\<rparr>) = 181"
    unfolding e2e_now_def datetime.select_convs stamp_ordinals by simp
  have s: "strftime \<lparr>year = 2024, month = 1, day = 1\<rparr> = ''2024-01-01''"
    by (rule strftime_original [OF stamp_strptime]) simp
  show ?thesis
    unfolding check_last_updated_found [OF stamp_match stamp_strptime t] o s by simp
qed

theorem timestamp_one_finding_witness:
  "\<exists>ws. check_last_updated e2e_now (init_validator e2e_root False) e2e_doc
           ''Last Updated: 2024-01-01''
         = Inr ((init_validator e2e_root False)\<lparr>warnings :=
                  warnings (init_validator e2e_root False) @ ws\<rparr>)
       \<and> length ws \<le> 1 \<and> no_timestamp_msg \<notin> set ws"
  using timestamp_one_finding [where now = e2e_now and v = "init_validator e2e_root False"
      and doc = e2e_doc and content = "''Last Updated: 2024-01-01''"] stamp_match
  unfolding stamp_check sum.case by blast

subsection \<open>Code spans without a line number\<close>



















subsection \<open>The three forms of the declaration\<close>

lemma digit_not_space: "is_digit c \<Longrightarrow> \<not> is_space c"
  by (auto simp: is_digit_def is_space_def)

lemma iso_date_shape_head:
  assumes "iso_date_shape d"
  shows "length d = 10 \<and> d \<noteq> [] \<and> \<not> is_space (hd d)"
proof (rule iso_date_shape_chars [OF assms])
  fix y1 y2 y3 y4 m1 m2 d1 d2
  assume "d = [y1, y2, y3, y4, CHR ''-'', m1, m2, CHR ''-'', d1, d2]" "is_digit y1"
  then show ?thesis by (simp add: digit_not_space)
qed

lemma match_updated_Some:
  assumes "match_updated label s = Some d"
  shows "\<exists>blanks rest. s = label @ blanks @ d @ rest \<and> list_all is_space blanks
           \<and> iso_date_shape d"
proof -
  from assms have p: "prefix label s"
    by (simp add: match_updated_def split: if_splits)
  define r where "r = drop (length label) s"
  define r2 where "r2 = dropWhile is_space r"
  from p have s: "s = label @ r"
    by (auto simp: r_def prefix_def)
  from assms p have "iso_date_prefix r2 = Some d"
    by (simp add: match_updated_def r_def r2_def)
  then have d: "d = take 10 r2" and shape: "iso_date_shape d"
    by (auto simp: iso_date_prefix_def split: if_splits)
  have "r = takeWhile is_space r @ d @ drop 10 r2"
    unfolding d r2_def by simp
  moreover have "list_all is_space (takeWhile is_space r)"
    by (simp add: list_all_iff) (meson set_takeWhileD)
  ultimately show ?thesis using s shape by metis
qed

lemma match_updated_intro:
  assumes "list_all is_space blanks" "iso_date_shape d"
  shows "match_updated label (label @ blanks @ d @ rest) = Some d"
proof -
  from iso_date_shape_head [OF assms(2)] have len: "length d = 10" and
    ne: "d \<noteq> []" and hd: "\<not> is_space (hd d)"
    by simp_all
  have "dropWhile is_space (blanks @ d @ rest) = dropWhile is_space (d @ rest)"
    using assms(1) by (simp add: list_all_iff dropWhile_append2)
  also have "\<dots> = d @ rest"
    using ne hd by (cases d) simp_all
  finally have "dropWhile is_space (blanks @ d @ rest) = d @ rest" .
  then show ?thesis
    using len assms(2) by (simp add: match_updated_def iso_date_prefix_def)
qed

lemma re_search_Some:
  "re_search m s = Some g \<Longrightarrow> \<exists>pre rest. s = pre @ rest \<and> m rest = Some g"
proof (induction s)
  case Nil
  then show ?case by simp
next
  case (Cons c cs)
  show ?case
  proof (cases "m (c # cs)")
    case None
    with Cons.prems have "re_search m cs = Some g" by simp
    from Cons.IH [OF this] obtain pre rest where "cs = pre @ rest" "m rest = Some g"
      by blast
    then have "c # cs = (c # pre) @ rest \<and> m rest = Some g" by simp
    then show ?thesis by blast
  next
    case (Some g')
    with Cons.prems have "g' = g" by simp
    with Some have "c # cs = [] @ (c # cs) \<and> m (c # cs) = Some g" by simp
    then show ?thesis by blast
  qed
qed

lemma re_search_None:
  "re_search m (pre @ rest) = None \<Longrightarrow> m rest = None"
proof (induction pre)
  case Nil
  then show ?case by (cases rest) (simp_all split: option.splits)
next
  case (Cons c pre)
  then show ?case by (simp split: option.splits)
qed

lemma re_search_updated_declares:
  "re_search (match_updated label) content = Some d \<Longrightarrow> declares label content d"
proof -
  assume "re_search (match_updated label) content = Some d"
  from re_search_Some [OF this] obtain pre rest where
    c: "content = pre @ rest" and m: "match_updated label rest = Some d"
    by blast
  from match_updated_Some [OF m] obtain blanks rest' where
    "rest = label @ blanks @ d @ rest'" "list_all is_space blanks" "iso_date_shape d"
    by blast
  with c show ?thesis unfolding declares_def by blast
qed

lemma declares_re_search:
  assumes "declares label content d"
  shows "re_search (match_updated label) content \<noteq> None"
proof
  assume none: "re_search (match_updated label) content = None"
  from assms obtain pre blanks rest where
    c: "content = pre @ label @ blanks @ d @ rest" and
    b: "list_all is_space blanks" and sh: "iso_date_shape d"
    unfolding declares_def by blast
  from none have "match_updated label (label @ blanks @ d @ rest) = None"
    unfolding c by (rule re_search_None)
  with match_updated_intro [OF b sh] show False by simp
qed

lemma re_search_updated_iff:
  "re_search (match_updated label) content = None \<longleftrightarrow> (\<forall>d. \<not> declares label content d)"
  using re_search_updated_declares declares_re_search
  by (metis not_Some_eq)

text \<open>
  Claim C8. The loop over the three patterns returns a date of the bold form whenever the
  bold form occurs anywhere in the text; otherwise a date of the plain
  \<^verbatim>\<open>Last Updated:\<close> form whenever that occurs; otherwise a date of the \<^verbatim>\<open>Updated:\<close>
  form whenever that occurs; and nothing when none of the three occurs. Where the forms
  stand in the text plays no part, and every form needs a date of the shape
  \<^verbatim>\<open>YYYY-MM-DD\<close>.
\<close>

theorem first_form_wins:
  "((\<exists>x. declares ''**Last Updated**:'' content x) \<longrightarrow>
      (\<exists>d. first_match updated_labels content = Some d
           \<and> declares ''**Last Updated**:'' content d))
   \<and> (\<not> (\<exists>x. declares ''**Last Updated**:'' content x)
        \<and> (\<exists>x. declares ''Last Updated:'' content x) \<longrightarrow>
      (\<exists>d. first_match updated_labels content = Some d
           \<and> declares ''Last Updated:'' content d))
   \<and> (\<not> (\<exists>x. declares ''**Last Updated**:'' content x)
        \<and> \<not> (\<exists>x. declares ''Last Updated:'' content x)
        \<and> (\<exists>x. declares ''Updated:'' content x) \<longrightarrow>
      (\<exists>d. first_match updated_labels content = Some d
           \<and> declares ''Updated:'' content d))
   \<and> (\<not> (\<exists>x. declares ''**Last Updated**:'' content x)
        \<and> \<not> (\<exists>x. declares ''Last Updated:'' content x)
        \<and> \<not> (\<exists>x. declares ''Updated:'' content x) \<longrightarrow>
      first_match updated_labels content = None)"
proof -
  let ?B = "re_search (match_updated ''**Last Updated**:'') content"
  let ?P = "re_search (match_updated ''Last Updated:'') content"
  let ?U = "re_search (match_updated ''Updated:'') content"
  have fm: "first_match updated_labels content =
      (case ?B of Some g \<Rightarrow> Some g
       | None \<Rightarrow> (case ?P of Some g \<Rightarrow> Some g
                  | None \<Rightarrow> (case ?U of Some g \<Rightarrow> Some g | None \<Rightarrow> None)))"
    by (simp add: updated_labels_def split: option.splits)
  have b: "?B = None \<longleftrightarrow> (\<forall>d. \<not> declares ''**Last Updated**:'' content d)"
    by (rule re_search_updated_iff)
  have p: "?P = None \<longleftrightarrow> (\<forall>d. \<not> declares ''Last Updated:'' content d)"
    by (rule re_search_updated_iff)
  have u: "?U = None \<longleftrightarrow> (\<forall>d. \<not> declares ''Updated:'' content d)"
    by (rule re_search_updated_iff)
  show ?thesis
  proof (cases ?B)
    case (Some d)
    then have "declares ''**Last Updated**:'' content d"
      by (rule re_search_updated_declares)
    with Some show ?thesis unfolding fm by auto
  next
    case nb: None
    show ?thesis
    proof (cases ?P)
      case (Some d)
      then have "declares ''Last Updated:'' content d"
        by (rule re_search_updated_declares)
      with nb Some b show ?thesis unfolding fm by auto
    next
      case np: None
      show ?thesis
      proof (cases ?U)
        case (Some d)
        then have "declares ''Updated:'' content d"
          by (rule re_search_updated_declares)
        with nb np Some b p show ?thesis unfolding fm by auto
      next
        case None
        with nb np b p u show ?thesis unfolding fm by auto
      qed
    qed
  qed
qed

lemma forms_declare:
  "declares ''**Last Updated**:''
     (''Updated: 2020-01-01 '' @ ''**Last Updated**:'' @ ''  '' @ ''2024-01-02'' @ '' end'')
     ''2024-01-02''"
  unfolding declares_def
  by (intro exI [of _ "''Updated: 2020-01-01 ''"] exI [of _ "''  ''"] exI [of _ "'' end''"])
     (simp add: is_space_def iso_date_shape_def is_digit_def)

theorem first_form_wins_witness:
  "(\<exists>x. declares ''**Last Updated**:''
           ''Updated: 2020-01-01 **Last Updated**:  2024-01-02 end'' x)
   \<and> (\<exists>x. declares ''Updated:'' ''Updated: 2020-01-01 **Last Updated**:  2024-01-02 end'' x)
   \<and> (\<exists>d. first_match updated_labels ''Updated: 2020-01-01 **Last Updated**:  2024-01-02 end''
              = Some d
            \<and> declares ''**Last Updated**:''
                 ''Updated: 2020-01-01 **Last Updated**:  2024-01-02 end'' d)
   \<and> first_match updated_labels ''Updated: 2020-01-01 **Last Updated**:  2024-01-02 end''
       = Some ''2024-01-02''"
proof -
  let ?c = "''Updated: 2020-01-01 **Last Updated**:  2024-01-02 end''"
  have c: "?c = ''Updated: 2020-01-01 '' @ ''**Last Updated**:'' @ ''  '' @ ''2024-01-02''
                  @ '' end''"
    by simp
  have b: "\<exists>x. declares ''**Last Updated**:'' ?c x"
    unfolding c using forms_declare by (rule exI)
  have "declares ''Updated:'' ?c ''2020-01-01''"
    unfolding declares_def
    by (intro exI [of _ "[]"] exI [of _ "'' ''"]
          exI [of _ "'' **Last Updated**:  2024-01-02 end''"])
       (simp add: is_space_def iso_date_shape_def is_digit_def)
  then have u: "\<exists>x. declares ''Updated:'' ?c x" by (rule exI)
  from first_form_wins [of ?c] b
  have w: "\<exists>d. first_match updated_labels ?c = Some d \<and> declares ''**Last Updated**:'' ?c d"
    by blast
  have v: "first_match updated_labels ?c = Some ''2024-01-02''"
    by (simp add: updated_labels_def match_updated_def is_space_def
        iso_date_prefix_def iso_date_shape_def is_digit_def)
  from b u w v show ?thesis by (intro conjI)
qed

subsection \<open>Required sections of a runbook\<close>













end
